theory Spec2Isabelle
  imports Main "HOL-Library.Word"
begin

section \<open>Strings of the remote command runner\<close>

text \<open>
  A JavaScript string is a sequence of 16-bit code units, and every string operation of
  \<^verbatim>\<open>remote-command-runner.ts\<close> (\<^verbatim>\<open>trim\<close>, \<^verbatim>\<open>startsWith\<close>, \<^verbatim>\<open>slice\<close>,
  \<^verbatim>\<open>indexOf\<close>, \<^verbatim>\<open>replace\<close> with a regular expression that has no \<^verbatim>\<open>u\<close> flag)
  works on code units. Literals of the source are written \<open>str ''...''\<close>.
\<close>

type_synonym jschar = "16 word"
type_synonym jsstring = "jschar list"

definition str :: "string \<Rightarrow> jsstring" where
  "str s = map of_char s"

definition LF :: jschar where "LF = 0x0A"
definition CR :: jschar where "CR = 0x0D"
definition ESC :: jschar where "ESC = 0x1B"

text \<open>\<^verbatim>\<open>s.startsWith(p)\<close>\<close>

definition startsWith :: "jsstring \<Rightarrow> jsstring \<Rightarrow> bool" where
  "startsWith s p = (take (length p) s = p)"

text \<open>
  The code units that \<^verbatim>\<open>String.prototype.trim\<close> and \<^verbatim>\<open>parseInt\<close> skip: ECMAScript's
  WhiteSpace (TAB, VT, FF, the space separators, U+FEFF) and LineTerminator (LF, CR,
  U+2028, U+2029).
\<close>

definition isWhiteSpace :: "jschar \<Rightarrow> bool" where
  "isWhiteSpace c =
     (c = 0x09 \<or> c = 0x0A \<or> c = 0x0B \<or> c = 0x0C \<or> c = 0x0D \<or> c = 0x20 \<or> c = 0xA0
      \<or> c = 0x1680 \<or> (0x2000 \<le> c \<and> c \<le> 0x200A) \<or> c = 0x2028 \<or> c = 0x2029
      \<or> c = 0x202F \<or> c = 0x205F \<or> c = 0x3000 \<or> c = 0xFEFF)"

definition trimStart :: "jsstring \<Rightarrow> jsstring" where
  "trimStart s = dropWhile isWhiteSpace s"

definition trim :: "jsstring \<Rightarrow> jsstring" where
  "trim s = rev (dropWhile isWhiteSpace (rev (dropWhile isWhiteSpace s)))"

text \<open>\<^verbatim>\<open>s.indexOf(c)\<close> for a one-unit needle; \<open>None\<close> is the source's \<^verbatim>\<open>-1\<close>.\<close>

definition indexOf :: "jsstring \<Rightarrow> jschar \<Rightarrow> nat option" where
  "indexOf s c = (if c \<in> set s then Some (length (takeWhile (\<lambda>x. x \<noteq> c) s)) else None)"

subsection \<open>Escape sequences\<close>

text \<open>
  \<^verbatim>\<open>const ANSI_ESCAPE_REGEX = /\u001b\[[0-9;?]*[ -\/]*[@-~]/g;\<close>

  The three character classes are pairwise disjoint (parameters \<^verbatim>\<open>0-9 ; ?\<close>, intermediates
  U+0020 to U+002F, final U+0040 to U+007E), so giving back a unit of a greedy star never
  lets a later part of the pattern match: at each position the match is the greedy one or
  there is none.
\<close>

definition isParam :: "jschar \<Rightarrow> bool" where
  "isParam c = ((0x30 \<le> c \<and> c \<le> 0x39) \<or> c = 0x3B \<or> c = 0x3F)"

definition isIntermediate :: "jschar \<Rightarrow> bool" where
  "isIntermediate c = (0x20 \<le> c \<and> c \<le> 0x2F)"

definition isFinal :: "jschar \<Rightarrow> bool" where
  "isFinal c = (0x40 \<le> c \<and> c \<le> 0x7E)"

text \<open>
  \<open>matchAnsi s\<close>: a match of the expression at the start of \<open>s\<close>, returning what follows
  the match.
\<close>

fun matchAnsi :: "jsstring \<Rightarrow> jsstring option" where
  "matchAnsi (e # b # rest) =
     (if e = ESC \<and> b = 0x5B then
        (case dropWhile isIntermediate (dropWhile isParam rest) of
           [] \<Rightarrow> None
         | f # after \<Rightarrow> if isFinal f then Some after else None)
      else None)"
| "matchAnsi _ = None"

lemma matchAnsi_shorter:
  "matchAnsi s = Some r \<Longrightarrow> length r < length s"
proof (cases s rule: matchAnsi.cases)
  case (1 e b rest)
  assume m: "matchAnsi s = Some r"
  have "length (dropWhile isIntermediate (dropWhile isParam rest)) \<le> length rest"
    by (meson length_dropWhile_le order_trans)
  with m 1 show ?thesis
    by (auto split: if_splits list.splits)
qed simp_all

text \<open>
  \<^verbatim>\<open>value.replace(ANSI_ESCAPE_REGEX, "")\<close>: one pass from the left; a match is dropped
  and the scan goes on behind it, a unit where nothing matches is kept.
\<close>

function stripAnsi :: "jsstring \<Rightarrow> jsstring" where
  "stripAnsi [] = []"
| "stripAnsi (c # cs) =
     (case matchAnsi (c # cs) of
        Some after \<Rightarrow> stripAnsi after
      | None \<Rightarrow> c # stripAnsi cs)"
  by pat_completeness auto
termination
proof (relation "measure length")
  fix c :: jschar and cs after
  assume "matchAnsi (c # cs) = Some after"
  then have "length after < length (c # cs)"
    by (rule matchAnsi_shorter)
  then show "(after, c # cs) \<in> measure length"
    by simp
qed simp_all

subsection \<open>Numbers\<close>

text \<open>
  The Numbers that the runner holds: what \<^verbatim>\<open>Number.parseInt\<close> returns (\<^verbatim>\<open>NaN\<close>, an
  integer that a double holds, the negative zero, an infinity) and the 1 of
  \<^verbatim>\<open>resolve(1)\<close>.
\<close>

datatype number = NaN | Num int | NegZero | Infinity | NegInfinity

text \<open>\<^verbatim>\<open>Number.isNaN\<close>\<close>

definition isNaN :: "number \<Rightarrow> bool" where
  "isNaN x = (x = NaN)"

text \<open>The number of binary digits of a natural number.\<close>

fun bitLength :: "nat \<Rightarrow> nat" where
  "bitLength n = (if n = 0 then 0 else Suc (bitLength (n div 2)))"

declare bitLength.simps [simp del]

text \<open>
  The double nearest to a natural number: 53 binary digits are kept, the rest is rounded
  to nearest, a tie to the even neighbour; from \<open>2 ^ 1024\<close> on the result is the infinity,
  here \<open>None\<close>.
\<close>

definition roundTiesToEven :: "nat \<Rightarrow> nat option" where
  "roundTiesToEven n =
     (let e = bitLength n - 53;
          q = n div 2 ^ e;
          r = n mod 2 ^ e;
          q' = (if 2 * r > 2 ^ e \<or> (2 * r = 2 ^ e \<and> odd q) then q + 1 else q)
      in if q' * 2 ^ e < 2 ^ 1024 then Some (q' * 2 ^ e) else None)"

text \<open>The Number for a sign and a magnitude.\<close>

definition toNumber :: "bool \<Rightarrow> nat \<Rightarrow> number" where
  "toNumber neg n =
     (if n = 0 then (if neg then NegZero else Num 0)
      else case roundTiesToEven n of
             None \<Rightarrow> (if neg then NegInfinity else Infinity)
           | Some d \<Rightarrow> Num (if neg then - int d else int d))"

subsection \<open>Number.parseInt\<close>

definition isDigit :: "jschar \<Rightarrow> bool" where
  "isDigit c = (0x30 \<le> c \<and> c \<le> 0x39)"

definition digitsValue :: "jsstring \<Rightarrow> nat" where
  "digitsValue z = foldl (\<lambda>a c. 10 * a + (unat c - 48)) 0 z"

text \<open>
  \<^verbatim>\<open>Number.parseInt(s, 10)\<close>: leading white space is skipped, one sign is read, then the
  longest run of decimal digits; what follows the digits is ignored. No digit gives
  \<^verbatim>\<open>NaN\<close>; otherwise the result is the Number for the sign and the integer that the
  digits denote. (Behind the twentieth significant digit the language standard lets an
  implementation read zeros; V8 and JavaScriptCore read the digits as they are, as here.)
\<close>

definition parseInt :: "jsstring \<Rightarrow> number" where
  "parseInt s =
     (let t = trimStart s;
          neg = (t \<noteq> [] \<and> hd t = 0x2D);
          u = (if t \<noteq> [] \<and> (hd t = 0x2B \<or> hd t = 0x2D) then tl t else t);
          z = takeWhile isDigit u
      in if z = [] then NaN else toNumber neg (digitsValue z))"

section \<open>The command runner\<close>

definition EXIT_SENTINEL_PREFIX :: jsstring where
  "EXIT_SENTINEL_PREFIX = str ''__COLAB_CLI_EXIT__''"

definition PROMPT_PREFIX :: jsstring where
  "PROMPT_PREFIX = str ''/# ''"

text \<open>
  What the runner writes: \<^verbatim>\<open>process.stdout.write\<close> and \<^verbatim>\<open>process.stderr.write\<close> are
  recorded call by call, \<^verbatim>\<open>console.log\<close> and \<^verbatim>\<open>console.warn\<close> by the message
  printed (the colour that \<^verbatim>\<open>chalk\<close> adds is left out).
\<close>

datatype console_entry =
    LogRunning jsstring jsstring  \<comment> \<open>"Running remote command on label: command"\<close>
  | LogDisconnected               \<comment> \<open>"Remote runtime disconnected."\<close>
  | WarnParseFailed               \<comment> \<open>"Failed to parse terminal frame"\<close>
  | WarnNoExitCode                \<comment> \<open>"Command finished without reporting an exit code; ..."\<close>

datatype run_error =
    EmptyCommand                  \<comment> \<open>"Cannot run an empty command"\<close>
  | FetchRejected                 \<comment> \<open>\<^verbatim>\<open>fetch\<close> or \<^verbatim>\<open>res.json()\<close> rejects\<close>
  | CreateTerminalFailed jsstring \<comment> \<open>"Failed to create remote terminal: statusText"\<close>
  | SocketError                   \<comment> \<open>the socket's \<^verbatim>\<open>error\<close> event\<close>

text \<open>
  A decoded message as the handler reads it: \<^verbatim>\<open>frame[0]\<close> and \<^verbatim>\<open>frame[1]\<close>, the
  second at the type that \<^verbatim>\<open>TerminalFrame\<close> declares for the tags whose payload the
  handler reads (a text). A decoded value that has none of these tags (another tag, or a
  value that is not an array) is a frame whose tag is none of them.
\<close>

datatype wire_frame = Frame (tag: jsstring) (payload: jsstring)

datatype net_action =
    HttpPostTerminals jsstring    \<comment> \<open>POST api/terminals at the proxy URL\<close>
  | SocketConnect jsstring jsstring \<comment> \<open>proxy URL and terminal name\<close>
  | SocketSend wire_frame

text \<open>
  The variables of \<^verbatim>\<open>streamCommand\<close> (\<open>stdoutBuffer\<close>, \<open>capturedExitCode\<close>), the
  promise \<^verbatim>\<open>run\<close> returns (\<open>None\<close> while it is pending), and the effects so far.
\<close>

record runner_state =
  stdoutBuffer :: jsstring
  capturedExitCode :: "number option"
  result :: "(run_error + number) option"
  stdoutWrites :: "jsstring list"
  stderrWrites :: "jsstring list"
  consoleLog :: "console_entry list"
  network :: "net_action list"

definition shouldSuppressLine :: "jsstring \<Rightarrow> jsstring \<Rightarrow> bool" where
  "shouldSuppressLine line exitMarker =
     (if startsWith line (exitMarker @ str '':'') then True
      else if startsWith line (str ''printf '' @ [0x27] @ str ''__COLAB_CLI_EXIT__'') then True
      else line = str ''PS1='' \<or> line = str ''stty -echo'' \<or> line = str ''stty echo''
           \<or> line = str ''exit'' \<or> line = str ''logout'')"

subsection \<open>flushLine\<close>

definition normalized :: "jsstring \<Rightarrow> jsstring" where
  "normalized line = stripAnsi (filter (\<lambda>c. c \<noteq> CR) line)"

definition withoutPrompt :: "jsstring \<Rightarrow> jsstring" where
  "withoutPrompt line =
     (if startsWith (normalized line) PROMPT_PREFIX
      then drop (length PROMPT_PREFIX) (normalized line)
      else normalized line)"

definition detectionTarget :: "jsstring \<Rightarrow> jsstring" where
  "detectionTarget line = trim (withoutPrompt line)"

definition flushLine :: "bool \<Rightarrow> jsstring \<Rightarrow> jsstring \<Rightarrow> runner_state \<Rightarrow> runner_state" where
  "flushLine verbose exitMarker line st =
     (if startsWith (detectionTarget line) (exitMarker @ str '':'') then
        (let code = parseInt (drop (length exitMarker + 1) (detectionTarget line))
         in if \<not> isNaN code then st\<lparr>capturedExitCode := Some code\<rparr> else st)
      else if \<not> verbose \<and> shouldSuppressLine (detectionTarget line) exitMarker then st
      else
        (let outputLine = (if \<not> verbose then withoutPrompt line else line)
         in if length outputLine > 0
            then st\<lparr>stdoutWrites := stdoutWrites st @ [outputLine @ [LF]]\<rparr>
            else st))"

subsection \<open>The line buffer\<close>

lemma indexOf_less: "indexOf s c = Some i \<Longrightarrow> i < length s"
proof -
  have "c \<in> set s \<Longrightarrow> length (takeWhile (\<lambda>x. x \<noteq> c) s) < length s"
    by (induction s) auto
  then show "indexOf s c = Some i \<Longrightarrow> i < length s"
    by (auto simp: indexOf_def split: if_splits)
qed

text \<open>
  The loop of the \<^verbatim>\<open>"stdout"\<close> case, on the buffer after the frame's text was appended:
  while there is a newline, the text before it is cut off and handed to \<open>flush\<close>. The
  buffer is the loop's own variable; \<open>flush\<close> (in the runner: \<open>flushLine\<close>) works on
  the rest of the state.
\<close>

function stdoutLoop :: "(jsstring \<Rightarrow> 's \<Rightarrow> 's) \<Rightarrow> jsstring \<Rightarrow> 's \<Rightarrow> jsstring \<times> 's" where
  "stdoutLoop flush buf s =
     (case indexOf buf LF of
        None \<Rightarrow> (buf, s)
      | Some newlineIndex \<Rightarrow>
          stdoutLoop flush (drop (newlineIndex + 1) buf) (flush (take newlineIndex buf) s))"
  by pat_completeness auto
termination
  by (relation "measure (\<lambda>(flush, buf, s). length buf)") (auto dest: indexOf_less)

subsection \<open>The socket's events\<close>

text \<open>
  The \<^verbatim>\<open>message\<close> handler. \<open>None\<close> is data on which the \<^verbatim>\<open>try\<close> block throws
  before it has an effect (\<^verbatim>\<open>JSON.parse\<close> rejects it, or gives \<^verbatim>\<open>null\<close>, which has no
  element to read): the \<^verbatim>\<open>catch\<close> warns and the handler returns.
\<close>

definition onMessage :: "bool \<Rightarrow> jsstring \<Rightarrow> wire_frame option \<Rightarrow> runner_state \<Rightarrow> runner_state" where
  "onMessage verbose exitMarker data st =
     (case data of
        None \<Rightarrow> st\<lparr>consoleLog := consoleLog st @ [WarnParseFailed]\<rparr>
      | Some frame \<Rightarrow>
          if tag frame = str ''stdout'' then
            (case stdoutLoop (flushLine verbose exitMarker) (stdoutBuffer st @ payload frame) st of
               (buf, st') \<Rightarrow> st'\<lparr>stdoutBuffer := buf\<rparr>)
          else if tag frame = str ''stderr'' then
            st\<lparr>stderrWrites := stderrWrites st @ [payload frame]\<rparr>
          else if tag frame = str ''disconnect'' then
            (if verbose then st\<lparr>consoleLog := consoleLog st @ [LogDisconnected]\<rparr> else st)
          else st)"

text \<open>\<^verbatim>\<open>resolve\<close> and \<^verbatim>\<open>reject\<close>: a promise keeps its first outcome.\<close>

definition settle :: "run_error + number \<Rightarrow> runner_state \<Rightarrow> runner_state" where
  "settle r st = (if result st = None then st\<lparr>result := Some r\<rparr> else st)"

definition onClose :: "bool \<Rightarrow> jsstring \<Rightarrow> runner_state \<Rightarrow> runner_state" where
  "onClose verbose exitMarker st =
     (let st1 = (if length (stdoutBuffer st) > 0
                 then (flushLine verbose exitMarker (stdoutBuffer st) st)\<lparr>stdoutBuffer := []\<rparr>
                 else st)
      in case capturedExitCode st1 of
           None \<Rightarrow> settle (Inr (Num 1)) (st1\<lparr>consoleLog := consoleLog st1 @ [WarnNoExitCode]\<rparr>)
         | Some code \<Rightarrow> settle (Inr code) st1)"

definition onError :: "runner_state \<Rightarrow> runner_state" where
  "onError st = settle (Inl SocketError) st"

text \<open>
  How an open socket ends. The \<^verbatim>\<open>ws\<close> socket emits \<^verbatim>\<open>close\<close> at most once and last,
  and \<^verbatim>\<open>error\<close> at most once, before it; both handlers are registered with
  \<^verbatim>\<open>once\<close>.
\<close>

datatype ending = Pending | Closed | Errored | ErroredThenClosed

definition joinLF :: "jsstring list \<Rightarrow> jsstring" where
  "joinLF xs = (case xs of [] \<Rightarrow> [] | x # ys \<Rightarrow> x @ concat (map (\<lambda>y. LF # y) ys))"

text \<open>The text sent as one \<^verbatim>\<open>stdin\<close> frame.\<close>

definition wrappedPayload :: "jsstring \<Rightarrow> jsstring \<Rightarrow> jsstring" where
  "wrappedPayload command exitMarker =
     joinLF
       [str ''stty -echo'',
        str ''PS1='',
        command,
        str ''__COLAB_CLI_STATUS=$?'',
        str ''stty echo'',
        str ''printf '' @ [0x27] @ exitMarker @ str '':%s'' @ [0x5C] @ str ''n'' @ [0x27]
          @ str '' '' @ [0x22] @ str ''$__COLAB_CLI_STATUS'' @ [0x22],
        str ''exit'',
        []]"

definition streamCommand ::
  "bool \<Rightarrow> jsstring \<Rightarrow> jsstring \<Rightarrow> wire_frame option list \<Rightarrow> ending \<Rightarrow> runner_state \<Rightarrow> runner_state" where
  "streamCommand verbose command exitMarker msgs fin st =
     (let st1 = st\<lparr>stdoutBuffer := [], capturedExitCode := None,
                   network := network st @ [SocketSend (Frame (str ''stdin'') (wrappedPayload command exitMarker))]\<rparr>;
          st2 = foldl (\<lambda>s data. onMessage verbose exitMarker data s) st1 msgs
      in case fin of
           Pending \<Rightarrow> st2
         | Closed \<Rightarrow> onClose verbose exitMarker st2
         | Errored \<Rightarrow> onError st2
         | ErroredThenClosed \<Rightarrow> onClose verbose exitMarker (onError st2))"

subsection \<open>run\<close>

record AssignedRuntime =
  label :: jsstring
  proxyUrl :: jsstring
  proxyToken :: jsstring

text \<open>
  What the network does in one run: the answer to the POST (\<open>Response ok statusText name\<close>,
  with \<open>name = None\<close> where \<^verbatim>\<open>res.json()\<close> rejects), whether the socket opens, the
  random UUID, and the events of the open socket.
\<close>

datatype fetch_outcome = FetchPending | FetchFails | Response bool jsstring "jsstring option"

datatype open_outcome = OpenPending | OpenFails | Opens

record world =
  fetched :: fetch_outcome
  opened :: open_outcome
  uuid :: jsstring
  messages :: "wire_frame option list"
  ending :: ending

definition initialState :: runner_state where
  "initialState =
     \<lparr>stdoutBuffer = [], capturedExitCode = None, result = None, stdoutWrites = [],
      stderrWrites = [], consoleLog = [], network = []\<rparr>"

text \<open>
  \<open>createRemoteTerminal\<close> returns \<open>None\<close> while the request is pending, else the error
  thrown or the terminal's name.
\<close>

definition createRemoteTerminal ::
  "AssignedRuntime \<Rightarrow> world \<Rightarrow> runner_state \<Rightarrow> (run_error + jsstring) option \<times> runner_state" where
  "createRemoteTerminal runtime w st =
     (let st1 = st\<lparr>network := network st @ [HttpPostTerminals (proxyUrl runtime)]\<rparr>
      in case fetched w of
           FetchPending \<Rightarrow> (None, st1)
         | FetchFails \<Rightarrow> (Some (Inl FetchRejected), st1)
         | Response ok statusText name \<Rightarrow>
             if \<not> ok then (Some (Inl (CreateTerminalFailed statusText)), st1)
             else (case name of
                     None \<Rightarrow> (Some (Inl FetchRejected), st1)
                   | Some n \<Rightarrow> (Some (Inr n), st1)))"

definition executeInTerminal ::
  "bool \<Rightarrow> AssignedRuntime \<Rightarrow> world \<Rightarrow> jsstring \<Rightarrow> jsstring \<Rightarrow> runner_state \<Rightarrow> runner_state" where
  "executeInTerminal verbose runtime w name command st =
     (let st1 = st\<lparr>network := network st @ [SocketConnect (proxyUrl runtime) name]\<rparr>
      in case opened w of
           OpenPending \<Rightarrow> st1
         | OpenFails \<Rightarrow> st1\<lparr>result := Some (Inl SocketError)\<rparr>
         | Opens \<Rightarrow>
             streamCommand verbose command (EXIT_SENTINEL_PREFIX @ uuid w) (messages w) (ending w) st1)"

definition run :: "bool \<Rightarrow> AssignedRuntime \<Rightarrow> world \<Rightarrow> jsstring \<Rightarrow> runner_state" where
  "run verbose runtime w command =
     (if trim command = [] then initialState\<lparr>result := Some (Inl EmptyCommand)\<rparr>
      else
        (let st = (if verbose
                   then initialState\<lparr>consoleLog := [LogRunning (label runtime) command]\<rparr>
                   else initialState)
         in case createRemoteTerminal runtime w st of
              (None, st1) \<Rightarrow> st1
            | (Some (Inl e), st1) \<Rightarrow> st1\<lparr>result := Some (Inl e)\<rparr>
            | (Some (Inr name), st1) \<Rightarrow> executeInTerminal verbose runtime w name command st1))"

section \<open>The line processor on its own\<close>

text \<open>
  The \<^verbatim>\<open>"stdout"\<close> case with any consumer of lines in the place of \<open>flushLine\<close>:
  the frame's text is appended to the buffer and the loop runs.
\<close>

definition feedChunk :: "(jsstring \<Rightarrow> 's \<Rightarrow> 's) \<Rightarrow> jsstring \<times> 's \<Rightarrow> jsstring \<Rightarrow> jsstring \<times> 's" where
  "feedChunk flush bs chunk = stdoutLoop flush (fst bs @ chunk) (snd bs)"

text \<open>A consumer that only writes down the lines it is given, in order.\<close>

definition recordLine :: "jsstring \<Rightarrow> jsstring list \<Rightarrow> jsstring list" where
  "recordLine line seen = seen @ [line]"

text \<open>The lines completed by a sequence of chunks, from an empty buffer.\<close>

definition completedLines :: "jsstring list \<Rightarrow> jsstring list" where
  "completedLines chunks = snd (foldl (feedChunk recordLine) ([], []) chunks)"

definition stdoutFrame :: "jsstring \<Rightarrow> wire_frame option" where
  "stdoutFrame chunk = Some (Frame (str ''stdout'') chunk)"

section \<open>Example values\<close>

definition exampleRuntime :: AssignedRuntime where
  "exampleRuntime =
     \<lparr>label = str ''gpu'', proxyUrl = str ''https://proxy.example/'', proxyToken = str ''t''\<rparr>"

definition exampleUuid :: jsstring where
  "exampleUuid = str ''123e4567-e89b-42d3-a456-426614174000''"

definition exampleWorld :: world where
  "exampleWorld =
     \<lparr>fetched = Response True (str ''OK'') (Some (str ''1'')), opened = Opens,
      uuid = exampleUuid, messages = [], ending = Closed\<rparr>"

section \<open>Notions used to state the properties\<close>

subsection \<open>Sentinel lines and the lines a run hands to flushLine\<close>

text \<open>A line that \<open>flushLine\<close> takes for the exit sentinel: the test of its first branch.\<close>

definition isSentinelLine :: "jsstring \<Rightarrow> jsstring \<Rightarrow> bool" where
  "isSentinelLine exitMarker line = startsWith (detectionTarget line) (exitMarker @ str '':'')"

text \<open>
  The first step of the \<^verbatim>\<open>close\<close> handler, with any consumer of lines: text left in
  the buffer is handed over once and the buffer is emptied.
\<close>

definition flushPartial :: "(jsstring \<Rightarrow> 's \<Rightarrow> 's) \<Rightarrow> jsstring \<times> 's \<Rightarrow> jsstring \<times> 's" where
  "flushPartial flush bs = (if length (fst bs) > 0 then ([], flush (fst bs) (snd bs)) else bs)"

text \<open>The texts of the \<^verbatim>\<open>stdout\<close> frames among the messages of a socket, in order.\<close>

definition stdoutChunks :: "wire_frame option list \<Rightarrow> jsstring list" where
  "stdoutChunks msgs = [payload f. Some f \<leftarrow> msgs, tag f = str ''stdout'']"

text \<open>The text left in the buffer after a sequence of chunks.\<close>

definition partialLine :: "jsstring list \<Rightarrow> jsstring" where
  "partialLine chunks = fst (foldl (feedChunk recordLine) ([], []) chunks)"

text \<open>
  The lines that a run whose socket closes hands to \<open>flushLine\<close>, in order: the recorder
  is run by the loop on every \<^verbatim>\<open>stdout\<close> frame and by the \<^verbatim>\<open>close\<close> handler's flush.
\<close>

definition observedLines :: "wire_frame option list \<Rightarrow> jsstring list" where
  "observedLines msgs =
     snd (flushPartial recordLine (foldl (feedChunk recordLine) ([], []) (stdoutChunks msgs)))"

text \<open>\<open>flushLine\<close> on a list of lines, one after the other.\<close>

definition replay :: "bool \<Rightarrow> jsstring \<Rightarrow> jsstring list \<Rightarrow> runner_state \<Rightarrow> runner_state" where
  "replay verbose exitMarker ls st = foldl (\<lambda>s l. flushLine verbose exitMarker l s) st ls"

text \<open>\<^verbatim>\<open>let capturedExitCode: number | undefined;\<close> at the start of \<open>streamCommand\<close>.\<close>

definition streamStart :: "runner_state \<Rightarrow> runner_state" where
  "streamStart st = st\<lparr>capturedExitCode := None\<rparr>"

text \<open>
  The state in which \<open>run\<close> calls \<open>streamCommand\<close>: the command is not blank, the
  terminal \<open>name\<close> was created and the socket is open.
\<close>

definition handshakeState :: "bool \<Rightarrow> AssignedRuntime \<Rightarrow> jsstring \<Rightarrow> jsstring \<Rightarrow> runner_state" where
  "handshakeState verbose runtime name command =
     initialState
       \<lparr>consoleLog := (if verbose then [LogRunning (label runtime) command] else []),
        network := [HttpPostTerminals (proxyUrl runtime), SocketConnect (proxyUrl runtime) name]\<rparr>"

text \<open>
  What \<^verbatim>\<open>process.stdout.write\<close> is given by \<open>flushLine\<close>: a text that is not empty,
  then a newline.
\<close>

definition isWrittenLine :: "jsstring \<Rightarrow> bool" where
  "isWrittenLine x = (1 < length x \<and> last x = LF)"

text \<open>Two states that differ at most in what was printed on the console.\<close>

definition sameButLog :: "runner_state \<Rightarrow> runner_state \<Rightarrow> bool" where
  "sameButLog s t \<longleftrightarrow>
     stdoutBuffer s = stdoutBuffer t \<and> capturedExitCode s = capturedExitCode t \<and>
     result s = result t \<and> stdoutWrites s = stdoutWrites t \<and>
     stderrWrites s = stderrWrites t \<and> network s = network t"

text \<open>
  The runner's state follows the recorder's: the buffers agree, and the exit code and the
  writes to standard output are those of \<open>flushLine\<close> replayed on the recorded lines.
\<close>

definition tracks ::
  "bool \<Rightarrow> jsstring \<Rightarrow> runner_state \<Rightarrow> runner_state \<Rightarrow> jsstring \<times> jsstring list \<Rightarrow> bool" where
  "tracks verbose exitMarker st0 st bs \<longleftrightarrow>
     stdoutBuffer st = fst bs \<and>
     capturedExitCode st = capturedExitCode (replay verbose exitMarker (snd bs) st0) \<and>
     stdoutWrites st = stdoutWrites (replay verbose exitMarker (snd bs) st0)"

subsection \<open>Boilerplate\<close>

text \<open>
  The commands that \<open>streamCommand\<close> sends around the user's command: the prologue and
  the epilogue of the wrapped payload.
\<close>

definition prologueCommands :: "jsstring list" where
  "prologueCommands = [str ''stty -echo'', str ''PS1='']"

definition printfCommand :: "jsstring \<Rightarrow> jsstring" where
  "printfCommand exitMarker =
     str ''printf '' @ [0x27] @ exitMarker @ str '':%s'' @ [0x5C] @ str ''n'' @ [0x27]
       @ str '' '' @ [0x22] @ str ''$__COLAB_CLI_STATUS'' @ [0x22]"

definition epilogueCommands :: "jsstring \<Rightarrow> jsstring list" where
  "epilogueCommands exitMarker =
     [str ''__COLAB_CLI_STATUS=$?'', str ''stty echo'', printfCommand exitMarker, str ''exit'']"

text \<open>The artefacts of a shell session that ends: a bare \<^verbatim>\<open>exit\<close> or \<^verbatim>\<open>logout\<close>.\<close>

definition sessionArtifacts :: "jsstring list" where
  "sessionArtifacts = [str ''exit'', str ''logout'']"

text \<open>
  Recognised boilerplate, in the words of the specification: a text that is the literal echo
  of one of the prologue and epilogue commands sent, or a shell session artefact.
\<close>

definition isBoilerplate :: "jsstring \<Rightarrow> jsstring \<Rightarrow> bool" where
  "isBoilerplate exitMarker t \<longleftrightarrow>
     t \<in> set (prologueCommands @ epilogueCommands exitMarker @ sessionArtifacts)"

text \<open>How the echo of the \<^verbatim>\<open>printf\<close> command begins, whatever the marker of the run.\<close>

definition printfEchoPrefix :: jsstring where
  "printfEchoPrefix = str ''printf '' @ [0x27] @ str ''__COLAB_CLI_EXIT__''"

subsection \<open>Decorated lines\<close>

text \<open>
  One escape sequence of the kind that the runner strips, a control sequence: the escape
  character and an opening bracket, then parameters (digits, semicolons, question marks),
  then intermediates (U+0020 to U+002F), then one final code unit (U+0040 to U+007E).
\<close>

definition isEscapeSequence :: "jsstring \<Rightarrow> bool" where
  "isEscapeSequence e =
     (case e of
        c # b # body \<Rightarrow>
          c = ESC \<and> b = 0x5B \<and> body \<noteq> [] \<and> isFinal (last body) \<and>
          list_all isIntermediate (dropWhile isParam (butlast body))
      | _ \<Rightarrow> False)"

text \<open>
  \<open>decorated s line\<close>: \<open>line\<close> is \<open>s\<close> with escape sequences and carriage returns
  put in anywhere.
\<close>

inductive decorated :: "jsstring \<Rightarrow> jsstring \<Rightarrow> bool" where
  plain: "decorated [] []"
| keep: "decorated s line \<Longrightarrow> decorated (c # s) (c # line)"
| escape: "isEscapeSequence e \<Longrightarrow> decorated s line \<Longrightarrow> decorated s (e @ line)"
| carriageReturn: "decorated s line \<Longrightarrow> decorated s (CR # line)"

text \<open>\<open>t\<close> occurs in \<open>s\<close>.\<close>

definition containsText :: "jsstring \<Rightarrow> jsstring \<Rightarrow> bool" where
  "containsText s t = list_ex (\<lambda>i. startsWith (drop i s) t) [0..<Suc (length s)]"

subsection \<open>Exit markers and decimal numbers\<close>

text \<open>
  \<^verbatim>\<open>randomUUID()\<close> returns 36 code units: lower-case hexadecimal digits, with a hyphen at
  the positions 8, 13, 18 and 23.
\<close>

definition isHexDigit :: "jschar \<Rightarrow> bool" where
  "isHexDigit c = ((0x30 \<le> c \<and> c \<le> 0x39) \<or> (0x61 \<le> c \<and> c \<le> 0x66))"

definition isUuid :: "jsstring \<Rightarrow> bool" where
  "isUuid u =
     (length u = 36 \<and>
      list_all (\<lambda>i. if i = 8 \<or> i = 13 \<or> i = 18 \<or> i = 23 then u ! i = 0x2D else isHexDigit (u ! i))
        [0..<36])"

text \<open>The code units an exit marker is made of: underscore, capital letters, hexadecimal digits, hyphen.\<close>

definition markerChar :: "jschar \<Rightarrow> bool" where
  "markerChar c = (c = 0x5F \<or> (0x41 \<le> c \<and> c \<le> 0x5A) \<or> isHexDigit c \<or> c = 0x2D)"

text \<open>
  A text that is a base-10 integer: one sign at most, then decimal digits and nothing
  else.
\<close>

definition isDecimalInteger :: "jsstring \<Rightarrow> bool" where
  "isDecimalInteger s =
     (let u = (if s \<noteq> [] \<and> (hd s = 0x2B \<or> hd s = 0x2D) then tl s else s)
      in u \<noteq> [] \<and> list_all isDigit u)"

text \<open>A natural number in decimal digits, as the shell prints an exit status.\<close>

definition digitChar :: "nat \<Rightarrow> jschar" where
  "digitChar d = of_nat (48 + d)"

function decimal :: "nat \<Rightarrow> jsstring" where
  "decimal n = (if n < 10 then [digitChar n] else decimal (n div 10) @ [digitChar (n mod 10)])"
  by pat_completeness auto
termination
  by (relation "measure id") auto

declare decimal.simps [simp del]

subsection \<open>More example values\<close>

definition exampleMarker :: jsstring where
  "exampleMarker = EXIT_SENTINEL_PREFIX @ exampleUuid"

text \<open>A run whose only message is one line, and then the socket closes.\<close>

definition sentinelWorld :: "jsstring \<Rightarrow> world" where
  "sentinelWorld line = exampleWorld\<lparr>messages := [stdoutFrame (line @ [LF])]\<rparr>"

text \<open>
  The line of the example marker, a colon and \<open>r\<close>: as it is, and behind an escape
  sequence and the prompt, with a space and a carriage return at its end.
\<close>

definition plainSentinel :: "jsstring \<Rightarrow> jsstring" where
  "plainSentinel r = exampleMarker @ str '':'' @ r"

definition decoratedSentinel :: "jsstring \<Rightarrow> jsstring" where
  "decoratedSentinel r =
     [ESC] @ str ''[0m'' @ PROMPT_PREFIX @ exampleMarker @ str '':'' @ r @ str '' '' @ [CR]"

text \<open>A run whose only message is the line \<^verbatim>\<open>hi\<close>.\<close>

definition quietWorld :: world where
  "quietWorld = exampleWorld\<lparr>messages := [stdoutFrame (str ''hi'' @ [LF])]\<rparr>"

definition decoratedExample :: jsstring where
  "decoratedExample = [ESC] @ str ''[0m/# '' @ [ESC] @ str ''[1;32mhi'' @ [ESC] @ str ''[0m''"

definition decoratedExit :: jsstring where
  "decoratedExit = str ''/# '' @ [ESC] @ str ''[1mexit'' @ [ESC] @ str ''[0m''"

text \<open>
  The line \<^verbatim>\<open>hi\<close> behind the prompt and an escape sequence of another kind, an operating
  system command that sets the window title (escape, closing bracket, text, BEL).
\<close>

definition titleSequence :: jsstring where
  "titleSequence = [ESC] @ str '']0;t'' @ [0x07]"

definition titledExample :: jsstring where
  "titledExample = PROMPT_PREFIX @ titleSequence @ str ''hi''"

section \<open>Lemmas\<close>

subsection \<open>Strings\<close>

lemma trim_Nil_iff: "trim s = [] \<longleftrightarrow> list_all isWhiteSpace s"
proof
  assume "trim s = []"
  then have all: "\<forall>x\<in>set (dropWhile isWhiteSpace s). isWhiteSpace x"
    by (simp add: trim_def)
  have "dropWhile isWhiteSpace s = []"
  proof (rule ccontr)
    assume ne: "dropWhile isWhiteSpace s \<noteq> []"
    then have "\<not> isWhiteSpace (hd (dropWhile isWhiteSpace s))"
      by (rule hd_dropWhile)
    moreover from ne have "hd (dropWhile isWhiteSpace s) \<in> set (dropWhile isWhiteSpace s)"
      by simp
    ultimately show False
      using all by blast
  qed
  then show "list_all isWhiteSpace s"
    by (simp add: list_all_iff)
next
  assume "list_all isWhiteSpace s"
  then have d: "dropWhile isWhiteSpace s = []"
    by (simp add: list_all_iff)
  show "trim s = []"
    unfolding trim_def d by simp
qed

lemma trim_id:
  assumes "s \<noteq> []" and "\<not> isWhiteSpace (hd s)" and "\<not> isWhiteSpace (last s)"
  shows "trim s = s"
proof -
  from assms have 1: "dropWhile isWhiteSpace s = s"
    by (cases s) auto
  from assms have "rev s \<noteq> []" "\<not> isWhiteSpace (hd (rev s))"
    by (simp_all add: hd_rev)
  then have "dropWhile isWhiteSpace (rev s) = rev s"
    by (cases "rev s") auto
  with 1 show ?thesis
    by (simp add: trim_def)
qed

lemma trim_pad:
  assumes "list_all isWhiteSpace pad1" and "list_all isWhiteSpace pad2"
    and "x \<noteq> []" and "\<not> isWhiteSpace (hd x)" and "\<not> isWhiteSpace (last x)"
  shows "trim (pad1 @ x @ pad2) = x"
proof -
  from assms(3,4) have x: "dropWhile isWhiteSpace (x @ pad2) = x @ pad2"
    by (cases x) auto
  from assms(1) have 1: "dropWhile isWhiteSpace (pad1 @ x @ pad2) = x @ pad2"
    by (simp add: dropWhile_append2 list_all_iff x)
  from assms(3,5) have "rev x \<noteq> []" "\<not> isWhiteSpace (hd (rev x))"
    by (simp_all add: hd_rev)
  then have r: "dropWhile isWhiteSpace (rev x) = rev x"
    by (cases "rev x") auto
  from assms(2) have "c \<in> set (rev pad2) \<Longrightarrow> isWhiteSpace c" for c
    by (simp add: list_all_iff)
  then have "dropWhile isWhiteSpace (rev pad2 @ rev x) = dropWhile isWhiteSpace (rev x)"
    by (rule dropWhile_append2)
  then have "dropWhile isWhiteSpace (rev pad2 @ rev x) = rev x"
    by (simp add: r)
  with 1 show ?thesis
    by (simp add: trim_def)
qed

lemma startsWith_hd: "p \<noteq> [] \<Longrightarrow> hd s \<noteq> hd p \<Longrightarrow> \<not> startsWith s p"
  by (cases p; cases s) (auto simp: startsWith_def)

lemma indexOf_None: "indexOf s c = None \<longleftrightarrow> c \<notin> set s"
  by (simp add: indexOf_def)

lemma indexOf_append: "indexOf b1 c = Some i \<Longrightarrow> indexOf (b1 @ b2) c = Some i"
  by (auto simp: indexOf_def split: if_splits dest!: split_list_first)

lemma takeWhile_until: "c \<notin> set l \<Longrightarrow> takeWhile (\<lambda>x. x \<noteq> c) (l @ c # r) = l"
  by (induction l) auto

lemma containsText_short: "length s < length t \<Longrightarrow> \<not> containsText s t"
  by (auto simp: containsText_def startsWith_def list_ex_iff)

subsection \<open>Escape sequences\<close>

lemma matchAnsi_no_ESC: "c \<noteq> ESC \<Longrightarrow> matchAnsi (c # cs) = None"
  by (cases cs) auto

lemma stripAnsi_id: "ESC \<notin> set s \<Longrightarrow> stripAnsi s = s"
  by (induction s) (auto simp: matchAnsi_no_ESC)

lemma dropWhile_append_stop:
  "dropWhile P xs \<noteq> [] \<Longrightarrow> dropWhile P (xs @ ys) = dropWhile P xs @ ys"
  by (induction xs) auto

text \<open>The matcher finds the matches of the expression: a text starts with a match and goes on
  with \<open>rest\<close> if and only if it is the escape character, a bracket, parameters,
  intermediates, a final unit and \<open>rest\<close>. The classes are disjoint, so a text has one
  such split at most, and the order in which an engine tries them does not matter.\<close>

lemma class_disjoint:
  "isIntermediate c \<Longrightarrow> \<not> isParam c"
  "isFinal c \<Longrightarrow> \<not> isParam c"
  "isFinal c \<Longrightarrow> \<not> isIntermediate c"
  unfolding isParam_def isIntermediate_def isFinal_def word_le_def by auto

lemma dropWhile_run:
  assumes "list_all P xs" and "\<not> P y"
  shows "dropWhile P (xs @ y # ys) = y # ys"
  using assms by (induction xs) auto

lemma matchAnsi_iff:
  "matchAnsi s = Some rest \<longleftrightarrow>
     (\<exists>ps is f. s = ESC # 0x5B # ps @ is @ f # rest \<and>
        list_all isParam ps \<and> list_all isIntermediate is \<and> isFinal f)"
proof
  assume m: "matchAnsi s = Some rest"
  then obtain c b r where s: "s = c # b # r"
    by (cases s rule: matchAnsi.cases) auto
  with m have cb: "c = ESC" "b = 0x5B"
    by (auto split: if_splits)
  from m s cb obtain f where
    f: "dropWhile isIntermediate (dropWhile isParam r) = f # rest" "isFinal f"
    by (auto split: list.splits if_splits)
  let ?ps = "takeWhile isParam r"
  let ?is = "takeWhile isIntermediate (dropWhile isParam r)"
  have "r = ?ps @ ?is @ f # rest"
    by (metis f(1) takeWhile_dropWhile_id)
  moreover have "list_all isParam ?ps" "list_all isIntermediate ?is"
    by (auto simp: list_all_iff dest: set_takeWhileD)
  ultimately show "\<exists>ps is f. s = ESC # 0x5B # ps @ is @ f # rest \<and>
        list_all isParam ps \<and> list_all isIntermediate is \<and> isFinal f"
    using s cb f(2) by blast
next
  assume "\<exists>ps is f. s = ESC # 0x5B # ps @ is @ f # rest \<and>
        list_all isParam ps \<and> list_all isIntermediate is \<and> isFinal f"
  then obtain ps "is" f where s: "s = ESC # 0x5B # ps @ is @ f # rest"
    and c: "list_all isParam ps" "list_all isIntermediate is" "isFinal f"
    by blast
  have 1: "dropWhile isParam (ps @ is @ f # rest) = is @ f # rest"
  proof (cases "is")
    case Nil
    with c show ?thesis
      by (simp add: dropWhile_run class_disjoint)
  next
    case (Cons i is')
    with c have "\<not> isParam i"
      by (simp add: class_disjoint)
    with c(1) Cons show ?thesis
      using dropWhile_run [of isParam ps i "is' @ f # rest"] by simp
  qed
  have 2: "dropWhile isIntermediate (is @ f # rest) = f # rest"
    using c by (simp add: dropWhile_run class_disjoint)
  from c(3) show "matchAnsi s = Some rest"
    by (simp add: s 1 2)
qed

lemma dropWhile_params:
  assumes "list_all isParam ps" and "list_all isIntermediate is"
  shows "dropWhile isParam (ps @ is) = is"
proof (cases "is")
  case Nil
  with assms(1) show ?thesis
    by (simp add: list_all_iff)
next
  case (Cons i is')
  with assms(2) have "\<not> isParam i"
    by (simp add: class_disjoint)
  with assms(1) Cons show ?thesis
    by (simp add: dropWhile_run)
qed

lemma isEscapeSequence_iff:
  "isEscapeSequence e \<longleftrightarrow>
     (\<exists>ps is f. e = ESC # 0x5B # ps @ is @ [f] \<and>
        list_all isParam ps \<and> list_all isIntermediate is \<and> isFinal f)"
proof
  assume e: "isEscapeSequence e"
  then obtain c b body where cb: "e = c # b # body"
    by (auto simp: isEscapeSequence_def split: list.splits)
  with e have p: "c = ESC" "b = 0x5B" "body \<noteq> []" "isFinal (last body)"
      "list_all isIntermediate (dropWhile isParam (butlast body))"
    by (simp_all add: isEscapeSequence_def)
  let ?ps = "takeWhile isParam (butlast body)"
  let ?is = "dropWhile isParam (butlast body)"
  have "e = ESC # 0x5B # ?ps @ ?is @ [last body]"
    using cb p(1,2,3) by (metis append_butlast_last_id takeWhile_dropWhile_id append_assoc)
  moreover have "list_all isParam ?ps"
    by (auto simp: list_all_iff dest: set_takeWhileD)
  ultimately show "\<exists>ps is f. e = ESC # 0x5B # ps @ is @ [f] \<and>
        list_all isParam ps \<and> list_all isIntermediate is \<and> isFinal f"
    using p(4,5) by blast
next
  assume "\<exists>ps is f. e = ESC # 0x5B # ps @ is @ [f] \<and>
        list_all isParam ps \<and> list_all isIntermediate is \<and> isFinal f"
  then obtain ps "is" f where e: "e = ESC # 0x5B # ps @ is @ [f]"
    and c: "list_all isParam ps" "list_all isIntermediate is" "isFinal f"
    by blast
  have "butlast (ps @ is @ [f]) = ps @ is"
    using butlast_snoc [of "ps @ is" f] by simp
  with c show "isEscapeSequence e"
    by (simp add: isEscapeSequence_def e dropWhile_params)
qed

text \<open>These are the texts that the expression matches as a whole.\<close>

lemma isEscapeSequence_match: "isEscapeSequence e \<longleftrightarrow> matchAnsi e = Some []"
  by (simp add: isEscapeSequence_iff matchAnsi_iff)

text \<open>An escape sequence is matched as a whole, whatever follows it.\<close>

lemma matchAnsi_append:
  assumes "matchAnsi e = Some []"
  shows "matchAnsi (e @ rest) = Some rest"
proof -
  from assms obtain c b r where e: "e = c # b # r"
    by (cases e rule: matchAnsi.cases) auto
  with assms have cb: "c = ESC" "b = 0x5B"
    by (auto split: if_splits)
  from assms e cb obtain f where f: "dropWhile isIntermediate (dropWhile isParam r) = [f]" "isFinal f"
    by (auto split: list.splits if_splits)
  have p: "dropWhile isParam r \<noteq> []"
  proof
    assume "dropWhile isParam r = []"
    with f(1) show False
      by simp
  qed
  have "dropWhile isIntermediate (dropWhile isParam (r @ rest)) = [f] @ rest"
    using f p by (simp add: dropWhile_append_stop)
  with e cb f show ?thesis
    by simp
qed

lemma stripAnsi_escape: "isEscapeSequence e \<Longrightarrow> stripAnsi (e @ rest) = stripAnsi rest"
proof -
  assume e: "isEscapeSequence e"
  then obtain c cs where c: "e = c # cs"
    by (cases e) (auto simp: isEscapeSequence_match)
  from e have "matchAnsi (e @ rest) = Some rest"
    by (simp add: isEscapeSequence_match matchAnsi_append)
  then show ?thesis
    by (simp add: c)
qed

lemma isEscapeSequence_no_CR: "isEscapeSequence e \<Longrightarrow> CR \<notin> set e"
proof (cases e rule: matchAnsi.cases)
  case (1 c b r)
  assume e: "isEscapeSequence e"
  with 1 have cb: "c = ESC" "b = 0x5B"
    by (auto simp: isEscapeSequence_match split: if_splits)
  from e 1 cb obtain f where f: "dropWhile isIntermediate (dropWhile isParam r) = [f]" "isFinal f"
    by (auto simp: isEscapeSequence_match split: list.splits if_splits)
  have r: "r = takeWhile isParam r @ takeWhile isIntermediate (dropWhile isParam r) @ [f]"
    by (metis f(1) takeWhile_dropWhile_id)
  have "CR \<notin> set (takeWhile isParam r)"
    by (auto simp: CR_def isParam_def dest!: set_takeWhileD)
  moreover have "CR \<notin> set (takeWhile isIntermediate (dropWhile isParam r))"
    by (auto simp: CR_def isIntermediate_def dest!: set_takeWhileD)
  moreover have "CR \<noteq> f"
    using f(2) by (auto simp: CR_def isFinal_def)
  ultimately have "CR \<notin> set r"
    by (subst r) auto
  with 1 cb show ?thesis
    by (simp add: CR_def ESC_def)
qed (auto simp: isEscapeSequence_match)

lemma normalized_Cons: "c \<noteq> CR \<Longrightarrow> c \<noteq> ESC \<Longrightarrow> normalized (c # line) = c # normalized line"
  by (simp add: normalized_def matchAnsi_no_ESC)

lemma normalized_escape: "isEscapeSequence e \<Longrightarrow> normalized (e @ line) = normalized line"
proof -
  assume e: "isEscapeSequence e"
  then have "filter (\<lambda>c. c \<noteq> CR) e = e"
    by (intro filter_True) (auto dest: isEscapeSequence_no_CR)
  with e show ?thesis
    by (simp add: normalized_def stripAnsi_escape)
qed

lemma normalized_decorated:
  "decorated s line \<Longrightarrow> CR \<notin> set s \<Longrightarrow> ESC \<notin> set s \<Longrightarrow> normalized line = s"
proof (induction rule: decorated.induct)
  case plain
  show ?case
    by (simp add: normalized_def)
next
  case (keep s line c)
  then have "c \<noteq> CR" "c \<noteq> ESC"
    by auto
  with keep show ?case
    by (simp add: normalized_Cons)
next
  case (escape e s line)
  then show ?case
    by (simp add: normalized_escape)
next
  case (carriageReturn s line)
  then show ?case
    by (simp add: normalized_def)
qed

lemma decorated_refl: "decorated s s"
  by (induction s) (auto intro: decorated.intros)

lemma isEscapeSequence_examples:
  "isEscapeSequence ([ESC] @ str ''[0m'')" "isEscapeSequence ([ESC] @ str ''[1;32m'')"
  by (simp_all add: isEscapeSequence_match str_def ESC_def isParam_def isIntermediate_def isFinal_def)

lemma decorated_example: "decorated (PROMPT_PREFIX @ str ''hi'') decoratedExample"
proof -
  have 1: "decorated [] ([ESC] @ str ''[0m'' @ [])"
    using decorated.escape [OF isEscapeSequence_examples(1) decorated.plain] by simp
  have 2: "decorated (str ''hi'') (str ''hi'' @ [ESC] @ str ''[0m'')"
    using 1 by (auto simp: str_def intro!: decorated.keep)
  have 3: "decorated (str ''hi'') (([ESC] @ str ''[1;32m'') @ str ''hi'' @ [ESC] @ str ''[0m'')"
    using isEscapeSequence_examples(2) 2 by (rule decorated.escape)
  have 4: "decorated (PROMPT_PREFIX @ str ''hi'')
      (PROMPT_PREFIX @ ([ESC] @ str ''[1;32m'') @ str ''hi'' @ [ESC] @ str ''[0m'')"
    using 3 by (auto simp: PROMPT_PREFIX_def str_def intro!: decorated.keep)
  have "decorated (PROMPT_PREFIX @ str ''hi'')
      (([ESC] @ str ''[0m'') @ PROMPT_PREFIX @ ([ESC] @ str ''[1;32m'') @ str ''hi'' @ [ESC] @ str ''[0m'')"
    using isEscapeSequence_examples(1) 4 by (rule decorated.escape)
  then show ?thesis
    by (simp add: decoratedExample_def PROMPT_PREFIX_def str_def)
qed

lemma decorated_exit: "decorated (PROMPT_PREFIX @ str ''exit'') decoratedExit"
proof -
  have e: "isEscapeSequence ([ESC] @ str ''[0m'')" "isEscapeSequence ([ESC] @ str ''[1m'')"
    by (simp_all add: isEscapeSequence_match str_def ESC_def isParam_def isIntermediate_def isFinal_def)
  have 1: "decorated [] ([ESC] @ str ''[0m'' @ [])"
    using decorated.escape [OF e(1) decorated.plain] by simp
  have 2: "decorated (str ''exit'') (str ''exit'' @ [ESC] @ str ''[0m'')"
    using 1 by (auto simp: str_def intro!: decorated.keep)
  have 3: "decorated (str ''exit'') (([ESC] @ str ''[1m'') @ str ''exit'' @ [ESC] @ str ''[0m'')"
    using e(2) 2 by (rule decorated.escape)
  have "decorated (PROMPT_PREFIX @ str ''exit'')
      (PROMPT_PREFIX @ ([ESC] @ str ''[1m'') @ str ''exit'' @ [ESC] @ str ''[0m'')"
    using 3 by (auto simp: PROMPT_PREFIX_def str_def intro!: decorated.keep)
  then show ?thesis
    by (simp add: decoratedExit_def PROMPT_PREFIX_def str_def)
qed

subsection \<open>Decimal numerals and parseInt\<close>

lemma unat_small: "k < 65536 \<Longrightarrow> unat (of_nat k :: jschar) = k"
  unfolding unat_of_nat by simp

lemma digit_char:
  assumes "d < 10"
  shows "isDigit (digitChar d)" and "unat (digitChar d) = 48 + d"
proof -
  from assms show u: "unat (digitChar d) = 48 + d"
    unfolding digitChar_def using unat_small [of "48 + d"] by simp
  from assms show "isDigit (digitChar d)"
    unfolding isDigit_def word_le_nat_alt u by simp
qed

lemma decimal_digits: "list_all isDigit (decimal n)"
proof (induction n rule: decimal.induct)
  case (1 n)
  show ?case
  proof (cases "n < 10")
    case True
    then show ?thesis
      by (subst decimal.simps) (simp add: digit_char(1))
  next
    case False
    have "n mod 10 < 10"
      by simp
    then have "isDigit (digitChar (n mod 10))"
      by (rule digit_char(1))
    with False "1.IH" show ?thesis
      by (subst decimal.simps) simp
  qed
qed

lemma decimal_not_Nil: "decimal n \<noteq> []"
  by (subst decimal.simps) simp

lemma digitsValue_snoc: "digitsValue (ds @ [c]) = 10 * digitsValue ds + (unat c - 48)"
  by (simp add: digitsValue_def)

lemma digitsValue_decimal: "digitsValue (decimal n) = n"
proof (induction n rule: decimal.induct)
  case (1 n)
  show ?case
  proof (cases "n < 10")
    case True
    then show ?thesis
      by (subst decimal.simps) (simp add: digitsValue_def digit_char(2))
  next
    case False
    have "n mod 10 < 10"
      by simp
    then have "unat (digitChar (n mod 10)) = 48 + n mod 10"
      by (rule digit_char(2))
    with False "1.IH" show ?thesis
      by (subst decimal.simps) (simp add: digitsValue_snoc)
  qed
qed

lemma isDigit_plain: "isDigit c \<Longrightarrow> \<not> isWhiteSpace c \<and> c \<noteq> 0x2B \<and> c \<noteq> 0x2D"
  unfolding isDigit_def isWhiteSpace_def word_le_def by auto

text \<open>A number of at most 53 binary digits, and \<open>2 ^ 53\<close> itself, is a double.\<close>

lemma bitLength_le: "bitLength n \<le> k \<longleftrightarrow> n < 2 ^ k"
proof (induction n arbitrary: k rule: bitLength.induct)
  case (1 n)
  show ?case
  proof (cases "n = 0")
    case True
    then show ?thesis
      by (simp add: bitLength.simps)
  next
    case False
    show ?thesis
    proof (cases k)
      case 0
      with False show ?thesis
        by (subst bitLength.simps) simp
    next
      case (Suc j)
      have "n div 2 < 2 ^ j \<longleftrightarrow> n < 2 ^ Suc j"
        by auto
      with False Suc "1.IH" [OF False, of j] show ?thesis
        by (subst bitLength.simps) simp
    qed
  qed
qed

lemma roundTiesToEven_exact:
  assumes "n \<le> 2 ^ 53"
  shows "roundTiesToEven n = Some n"
proof (cases "n < 2 ^ 53")
  case True
  then have "bitLength n - 53 = 0"
    using bitLength_le [of n 53] by simp
  moreover from True have "n < 2 ^ 1024"
    by (rule less_trans) simp
  ultimately show ?thesis
    by (simp add: roundTiesToEven_def)
next
  case False
  with assms have n: "n = 2 ^ 53"
    by simp
  have "bitLength n \<le> 54" "\<not> bitLength n \<le> 53"
    unfolding bitLength_le by (simp_all add: n)
  then have "bitLength n - 53 = 1"
    by simp
  then show ?thesis
    by (simp add: roundTiesToEven_def n)
qed

lemma toNumber_exact: "n \<le> 2 ^ 53 \<Longrightarrow> toNumber False n = Num (int n)"
  by (simp add: toNumber_def roundTiesToEven_exact)

text \<open>
  What \<open>parseInt\<close> reads: behind white space and one sign at most, the digits up to the
  first code unit that is no digit.
\<close>

lemma toNumber_not_NaN: "\<not> isNaN (toNumber neg n)"
  by (simp add: toNumber_def isNaN_def split: option.splits)

lemma trimStart_pad:
  assumes "list_all isWhiteSpace pad" and "\<not> isWhiteSpace c"
  shows "trimStart (pad @ c # rest) = c # rest"
  using assms by (simp add: trimStart_def dropWhile_run)

lemma parseInt_reads:
  assumes "list_all isWhiteSpace pad"
    and "sg = [] \<or> sg = [0x2B] \<or> sg = [0x2D]"
    and "ds \<noteq> []" and "list_all isDigit ds"
    and "rest = [] \<or> \<not> isDigit (hd rest)"
  shows "parseInt (pad @ sg @ ds @ rest) = toNumber (sg = [0x2D]) (digitsValue ds)"
proof -
  from assms(3) obtain d ds' where ds: "ds = d # ds'"
    by (cases ds) auto
  with assms(4) have d: "\<not> isWhiteSpace d" "d \<noteq> 0x2B" "d \<noteq> 0x2D"
    using isDigit_plain [of d] by auto
  have z: "takeWhile isDigit (ds @ rest) = ds"
  proof (cases rest)
    case Nil
    with assms(4) show ?thesis
      by (simp add: list_all_iff)
  next
    case (Cons c cs)
    with assms(5) have "\<not> isDigit c"
      by simp
    with assms(4) Cons show ?thesis
      by (simp add: takeWhile_tail list_all_iff)
  qed
  have ws: "\<not> isWhiteSpace 0x2B" "\<not> isWhiteSpace 0x2D"
    by (simp_all add: isWhiteSpace_def)
  from assms(2) consider "sg = []" | "sg = [0x2B]" | "sg = [0x2D]"
    by blast
  then show ?thesis
  proof cases
    case 1
    have "trimStart (pad @ ds @ rest) = ds @ rest"
      using trimStart_pad [OF assms(1) d(1), of "ds' @ rest"] by (simp add: ds)
    with 1 d z assms(3) show ?thesis
      by (simp add: parseInt_def Let_def ds)
  next
    case 2
    have "trimStart (pad @ 0x2B # ds @ rest) = 0x2B # ds @ rest"
      using assms(1) ws(1) by (rule trimStart_pad)
    with 2 z assms(3) show ?thesis
      by (simp add: parseInt_def Let_def)
  next
    case 3
    have "trimStart (pad @ 0x2D # ds @ rest) = 0x2D # ds @ rest"
      using assms(1) ws(2) by (rule trimStart_pad)
    with 3 z assms(3) show ?thesis
      by (simp add: parseInt_def Let_def)
  qed
qed

lemma parseInt_decimal_text:
  assumes "list_all isWhiteSpace pad" and "rest = [] \<or> \<not> isDigit (hd rest)" and "n \<le> 2 ^ 53"
  shows "parseInt (pad @ decimal n @ rest) = Num (int n)"
  using parseInt_reads [OF assms(1) _ decimal_not_Nil decimal_digits assms(2), of "[]" n] assms(3)
  by (simp add: digitsValue_decimal toNumber_exact)

lemma parseInt_negative_text:
  assumes "list_all isWhiteSpace pad" and "rest = [] \<or> \<not> isDigit (hd rest)" and "n \<le> 2 ^ 53"
  shows "parseInt (pad @ 0x2D # decimal n @ rest) = (if n = 0 then NegZero else Num (- int n))"
  using parseInt_reads [OF assms(1) _ decimal_not_Nil decimal_digits assms(2), of "[0x2D]" n] assms(3)
  by (simp add: digitsValue_decimal toNumber_def roundTiesToEven_exact)

lemma parseInt_NaN_iff:
  "isNaN (parseInt s) \<longleftrightarrow>
     \<not> (\<exists>pad sg d rest. s = pad @ sg @ d # rest \<and> list_all isWhiteSpace pad \<and>
          (sg = [] \<or> sg = [0x2B] \<or> sg = [0x2D]) \<and> isDigit d)"
proof
  assume nan: "isNaN (parseInt s)"
  show "\<not> (\<exists>pad sg d rest. s = pad @ sg @ d # rest \<and> list_all isWhiteSpace pad \<and>
          (sg = [] \<or> sg = [0x2B] \<or> sg = [0x2D]) \<and> isDigit d)"
  proof
    assume "\<exists>pad sg d rest. s = pad @ sg @ d # rest \<and> list_all isWhiteSpace pad \<and>
          (sg = [] \<or> sg = [0x2B] \<or> sg = [0x2D]) \<and> isDigit d"
    then obtain pad sg d rest where s: "s = pad @ sg @ d # rest"
      and p: "list_all isWhiteSpace pad" "sg = [] \<or> sg = [0x2B] \<or> sg = [0x2D]" "isDigit d"
      by blast
    let ?ds = "d # takeWhile isDigit rest"
    let ?r = "dropWhile isDigit rest"
    have r: "?r = [] \<or> \<not> isDigit (hd ?r)"
      using hd_dropWhile [of isDigit rest] by blast
    have "list_all isDigit ?ds"
      using p(3) by (auto simp: list_all_iff dest: set_takeWhileD)
    from parseInt_reads [OF p(1,2) _ this r]
    have "parseInt s = toNumber (sg = [0x2D]) (digitsValue ?ds)"
      by (simp add: s)
    with nan show False
      by (simp add: toNumber_not_NaN)
  qed
next
  assume n: "\<not> (\<exists>pad sg d rest. s = pad @ sg @ d # rest \<and> list_all isWhiteSpace pad \<and>
          (sg = [] \<or> sg = [0x2B] \<or> sg = [0x2D]) \<and> isDigit d)"
  let ?pad = "takeWhile isWhiteSpace s"
  let ?t = "trimStart s"
  let ?u = "if ?t \<noteq> [] \<and> (hd ?t = 0x2B \<or> hd ?t = 0x2D) then tl ?t else ?t"
  have s: "s = ?pad @ ?t"
    by (simp add: trimStart_def)
  have pad: "list_all isWhiteSpace ?pad"
    by (auto simp: list_all_iff dest: set_takeWhileD)
  have "takeWhile isDigit ?u = []"
  proof (rule ccontr)
    assume "takeWhile isDigit ?u \<noteq> []"
    then obtain d rest where u: "?u = d # rest" and d: "isDigit d"
      by (cases ?u) (auto split: if_splits)
    obtain sg where t: "?t = sg @ d # rest" and sg: "sg = [] \<or> sg = [0x2B] \<or> sg = [0x2D]"
    proof (cases "?t \<noteq> [] \<and> (hd ?t = 0x2B \<or> hd ?t = 0x2D)")
      case True
      with u have "?t = [hd ?t] @ d # rest"
        by (cases ?t) auto
      with True that show ?thesis
        by metis
    next
      case False
      with u have "?t = [] @ d # rest"
        by auto
      with that show ?thesis
        by blast
    qed
    from s t have "s = ?pad @ sg @ d # rest"
      by simp
    with n pad sg d show False
      by blast
  qed
  then show "isNaN (parseInt s)"
    by (simp add: parseInt_def isNaN_def Let_def)
qed

lemma parseInt_examples:
  "parseInt (str ''0'') = Num 0" "parseInt (str ''137'') = Num 137"
  "parseInt (str ''abc'') = NaN" "parseInt (str ''12abc'') = Num 12"
  by (simp_all add: parseInt_def trimStart_def str_def isWhiteSpace_def isDigit_def
      digitsValue_def toNumber_def roundTiesToEven_exact)

text \<open>The numeral of \<open>2 ^ 53 + 1\<close> is read as \<open>2 ^ 53\<close>, the nearest double.\<close>

lemma parseInt_rounds: "parseInt (str ''9007199254740993'') = Num 9007199254740992"
proof -
  have "bitLength 9007199254740993 \<le> 54" "\<not> bitLength 9007199254740993 \<le> 53"
    unfolding bitLength_le by simp_all
  then have "bitLength 9007199254740993 - 53 = 1"
    by simp
  then have "roundTiesToEven 9007199254740993 = Some 9007199254740992"
    by (simp add: roundTiesToEven_def)
  then show ?thesis
    by (simp add: parseInt_def trimStart_def str_def isWhiteSpace_def isDigit_def
        digitsValue_def toNumber_def)
qed

subsection \<open>Exit markers\<close>

lemma uuid_chars:
  assumes "isUuid u" and "c \<in> set u"
  shows "markerChar c"
proof -
  from assms(2) obtain i where i: "i < length u" "u ! i = c"
    by (auto simp: in_set_conv_nth)
  with assms(1) have "i < 36"
    by (simp add: isUuid_def)
  then have "i \<in> set [0..<36]"
    by simp
  with assms(1) have "if i = 8 \<or> i = 13 \<or> i = 18 \<or> i = 23 then u ! i = 0x2D else isHexDigit (u ! i)"
    unfolding isUuid_def list_all_iff by blast
  with i show ?thesis
    by (auto simp: markerChar_def split: if_splits)
qed

lemma prefix_chars: "c \<in> set EXIT_SENTINEL_PREFIX \<Longrightarrow> markerChar c"
  by (auto simp: EXIT_SENTINEL_PREFIX_def str_def markerChar_def)

lemma marker_chars: "isUuid u \<Longrightarrow> c \<in> set (EXIT_SENTINEL_PREFIX @ u) \<Longrightarrow> markerChar c"
  by (auto dest: uuid_chars prefix_chars)

lemma markerChar_plain:
  "markerChar c \<Longrightarrow> c \<noteq> CR \<and> c \<noteq> LF \<and> c \<noteq> ESC \<and> \<not> isWhiteSpace c"
  unfolding markerChar_def isHexDigit_def isWhiteSpace_def CR_def LF_def ESC_def word_le_def
  by auto

lemma isUuid_example: "isUuid exampleUuid"
  by (simp add: isUuid_def exampleUuid_def str_def isHexDigit_def upt_rec)

lemma trim_ls: "trim (str ''ls'') \<noteq> []"
  by (simp add: trim_def str_def isWhiteSpace_def)

subsection \<open>flushLine\<close>

lemma flushLine_Nil: "flushLine verbose exitMarker [] st = st"
  by (simp add: flushLine_def detectionTarget_def withoutPrompt_def normalized_def trim_def
      startsWith_def shouldSuppressLine_def str_def PROMPT_PREFIX_def)

lemma flushLine_stdoutBuffer_update:
  "flushLine verbose exitMarker l (s\<lparr>stdoutBuffer := b\<rparr>) =
   (flushLine verbose exitMarker l s)\<lparr>stdoutBuffer := b\<rparr>"
  by (simp add: flushLine_def Let_def split: option.splits)

lemma result_flushLine: "result (flushLine verbose exitMarker l s) = result s"
  by (simp add: flushLine_def Let_def split: option.splits)

lemma flushLine_settle:
  "flushLine verbose exitMarker l (settle r s) = settle r (flushLine verbose exitMarker l s)"
  by (simp add: flushLine_def settle_def Let_def split: option.splits)

lemma flushLine_cong:
  assumes "capturedExitCode s = capturedExitCode s'" and "stdoutWrites s = stdoutWrites s'"
  shows "capturedExitCode (flushLine verbose exitMarker l s) = capturedExitCode (flushLine verbose exitMarker l s')"
    and "stdoutWrites (flushLine verbose exitMarker l s) = stdoutWrites (flushLine verbose exitMarker l s')"
  using assms by (simp_all add: flushLine_def Let_def split: option.splits)

lemma capturedExitCode_flushLine:
  "\<not> isSentinelLine exitMarker l \<Longrightarrow>
     capturedExitCode (flushLine verbose exitMarker l s) = capturedExitCode s"
  by (simp add: flushLine_def isSentinelLine_def Let_def)

lemma flushLine_at_sentinel:
  "isSentinelLine exitMarker line \<Longrightarrow>
     flushLine verbose exitMarker line st =
       (let code = parseInt (drop (length exitMarker + 1) (detectionTarget line))
        in if \<not> isNaN code then st\<lparr>capturedExitCode := Some code\<rparr> else st)"
  by (simp add: flushLine_def isSentinelLine_def)

lemma shouldSuppressLine_unfold:
  "\<not> startsWith t (exitMarker @ str '':'') \<Longrightarrow>
   shouldSuppressLine t exitMarker =
     (t = str ''PS1='' \<or> t = str ''stty -echo'' \<or> t = str ''stty echo'' \<or> t = str ''exit''
      \<or> t = str ''logout''
      \<or> startsWith t (str ''printf '' @ [0x27] @ str ''__COLAB_CLI_EXIT__''))"
  unfolding shouldSuppressLine_def by (simp only: if_False if_True split: if_splits) blast

text \<open>The payload is the prologue, the command, the epilogue and an empty last line.\<close>

lemma wrappedPayload_commands:
  "wrappedPayload command exitMarker =
     joinLF (prologueCommands @ [command] @ epilogueCommands exitMarker @ [[]])"
  by (simp add: wrappedPayload_def prologueCommands_def epilogueCommands_def printfCommand_def)

lemma isBoilerplate_unfold:
  "isBoilerplate exitMarker t \<longleftrightarrow>
     t = str ''stty -echo'' \<or> t = str ''PS1='' \<or> t = str ''__COLAB_CLI_STATUS=$?'' \<or>
     t = str ''stty echo'' \<or> t = printfCommand exitMarker \<or> t = str ''exit'' \<or> t = str ''logout''"
  unfolding isBoilerplate_def prologueCommands_def epilogueCommands_def sessionArtifacts_def
  by auto

lemma printfCommand_prefix: "startsWith (printfCommand (EXIT_SENTINEL_PREFIX @ u)) printfEchoPrefix"
proof -
  have "printfCommand (EXIT_SENTINEL_PREFIX @ u) =
      printfEchoPrefix @ u @ str '':%s'' @ [0x5C] @ str ''n'' @ [0x27]
        @ str '' '' @ [0x22] @ str ''$__COLAB_CLI_STATUS'' @ [0x22]"
    by (simp add: printfCommand_def printfEchoPrefix_def EXIT_SENTINEL_PREFIX_def)
  then show ?thesis
    by (simp add: startsWith_def)
qed

text \<open>
  The lines that \<open>flushLine\<close> suppresses with verbose mode off, against the boilerplate of
  the specification: the echo of the command that saves the exit status apart, they are the
  boilerplate and the texts that begin as the echo of \<^verbatim>\<open>printf\<close> does.
\<close>

lemma shouldSuppressLine_boilerplate:
  assumes "\<not> startsWith t (EXIT_SENTINEL_PREFIX @ u @ str '':'')"
    and "t \<noteq> str ''__COLAB_CLI_STATUS=$?''"
  shows "shouldSuppressLine t (EXIT_SENTINEL_PREFIX @ u) \<longleftrightarrow>
           isBoilerplate (EXIT_SENTINEL_PREFIX @ u) t \<or> startsWith t printfEchoPrefix"
proof -
  from assms(1) have n: "\<not> startsWith t ((EXIT_SENTINEL_PREFIX @ u) @ str '':'')"
    by simp
  have p: "t = printfCommand (EXIT_SENTINEL_PREFIX @ u) \<Longrightarrow> startsWith t printfEchoPrefix"
    by (simp add: printfCommand_prefix)
  show ?thesis
    unfolding shouldSuppressLine_unfold [OF n] isBoilerplate_unfold
    using assms(2) p by (fold printfEchoPrefix_def) blast
qed

text \<open>
  The line of a marker, a colon and a text \<open>r\<close>, behind the prompt or not, with white space
  around it, decorated: the text that is tested is the marker, the colon and \<open>r\<close>.
\<close>

lemma detectionTarget_sentinel:
  assumes "isUuid u"
    and "pre = [] \<or> pre = PROMPT_PREFIX"
    and "list_all isWhiteSpace pad1" and "list_all isWhiteSpace pad2"
    and "CR \<notin> set (pad1 @ r @ pad2)" and "ESC \<notin> set r"
    and "r = [] \<or> \<not> isWhiteSpace (last r)"
    and "decorated (pre @ pad1 @ EXIT_SENTINEL_PREFIX @ u @ str '':'' @ r @ pad2) line"
  shows "detectionTarget line = EXIT_SENTINEL_PREFIX @ u @ str '':'' @ r"
proof -
  let ?x = "EXIT_SENTINEL_PREFIX @ u @ str '':'' @ r"
  let ?s = "pre @ pad1 @ ?x @ pad2"
  have s: "?s = pre @ pad1 @ (EXIT_SENTINEL_PREFIX @ u) @ str '':'' @ r @ pad2"
    by simp
  have plain: "c \<noteq> CR \<and> c \<noteq> ESC" if "c \<in> set ?s" for c
  proof -
    from that consider "c \<in> set pre" | "c \<in> set pad1 \<or> c \<in> set pad2"
      | "c \<in> set (EXIT_SENTINEL_PREFIX @ u)" | "c = 0x3A" | "c \<in> set r"
      unfolding s by (auto simp: str_def)
    then show ?thesis
    proof cases
      case 1
      with assms(2) show ?thesis
        by (auto simp: PROMPT_PREFIX_def str_def CR_def ESC_def)
    next
      case 2
      with assms(3,4) have "isWhiteSpace c"
        by (auto simp: list_all_iff)
      then have "c \<noteq> ESC"
        by (auto simp: isWhiteSpace_def ESC_def)
      with 2 assms(5) show ?thesis
        by auto
    next
      case 3
      with assms(1) show ?thesis
        using markerChar_plain marker_chars by blast
    next
      case 4
      then show ?thesis
        by (simp add: CR_def ESC_def)
    next
      case 5
      with assms(5,6) show ?thesis
        by auto
    qed
  qed
  then have "CR \<notin> set ?s" "ESC \<notin> set ?s"
    by blast+
  moreover from assms(8) have "decorated ?s line"
    by simp
  ultimately have n: "normalized line = ?s"
    by (intro normalized_decorated)
  have hd: "hd ?x = 0x5F" "?x \<noteq> []"
    by (simp_all add: EXIT_SENTINEL_PREFIX_def str_def)
  have p: "hd PROMPT_PREFIX = 0x2F" "PROMPT_PREFIX \<noteq> []"
    by (simp_all add: PROMPT_PREFIX_def str_def)
  have w: "withoutPrompt line = pad1 @ ?x @ pad2"
  proof (cases "pre = []")
    case True
    have "hd (pad1 @ ?x @ pad2) \<noteq> 0x2F"
    proof (cases pad1)
      case Nil
      then show ?thesis
        by (simp add: EXIT_SENTINEL_PREFIX_def str_def)
    next
      case (Cons c cs)
      with assms(3) have "isWhiteSpace c"
        by simp
      then have "c \<noteq> 0x2F"
        by (auto simp: isWhiteSpace_def)
      with Cons show ?thesis
        by simp
    qed
    with p have "\<not> startsWith (pad1 @ ?x @ pad2) PROMPT_PREFIX"
      by (intro startsWith_hd) simp_all
    with n True show ?thesis
      by (simp add: withoutPrompt_def)
  next
    case False
    with assms(2) have "pre = PROMPT_PREFIX"
      by simp
    with n show ?thesis
      by (simp add: withoutPrompt_def startsWith_def)
  qed
  have "last ?x = (if r = [] then 0x3A else last r)"
    by (simp add: str_def)
  with assms(7) have "\<not> isWhiteSpace (last ?x)"
    by (auto simp: isWhiteSpace_def)
  moreover have "\<not> isWhiteSpace (hd ?x)"
    by (simp add: hd isWhiteSpace_def)
  ultimately have "trim (pad1 @ ?x @ pad2) = ?x"
    using assms(3,4) hd(2) by (intro trim_pad)
  with w show ?thesis
    by (simp add: detectionTarget_def)
qed

lemma flushLine_sentinel:
  assumes "isUuid u"
    and "pre = [] \<or> pre = PROMPT_PREFIX"
    and "list_all isWhiteSpace pad1" and "list_all isWhiteSpace pad2"
    and "CR \<notin> set (pad1 @ r @ pad2)" and "ESC \<notin> set r"
    and "r = [] \<or> \<not> isWhiteSpace (last r)"
    and "decorated (pre @ pad1 @ EXIT_SENTINEL_PREFIX @ u @ str '':'' @ r @ pad2) line"
  shows "flushLine verbose (EXIT_SENTINEL_PREFIX @ u) line st =
     (if \<not> isNaN (parseInt r) then st\<lparr>capturedExitCode := Some (parseInt r)\<rparr> else st)"
proof -
  have "length (str '':'') = 1"
    by (simp add: str_def)
  then show ?thesis
    using detectionTarget_sentinel [OF assms]
    by (simp add: flushLine_def startsWith_def)
qed

lemma replay_snoc:
  "replay verbose exitMarker (ls @ [l]) st = flushLine verbose exitMarker l (replay verbose exitMarker ls st)"
  by (simp add: replay_def)

lemma replay_no_sentinel:
  "\<not> list_ex (isSentinelLine exitMarker) ls \<Longrightarrow>
     capturedExitCode (replay verbose exitMarker ls st) = capturedExitCode st"
  by (induction ls rule: rev_induct) (simp_all add: replay_snoc capturedExitCode_flushLine replay_def)

subsection \<open>The loop\<close>

declare stdoutLoop.simps [simp del]

lemma stdoutLoop_no_newline: "LF \<notin> set buf \<Longrightarrow> stdoutLoop flush buf s = (buf, s)"
  by (subst stdoutLoop.simps) (simp add: indexOf_def)

lemma stdoutLoop_one_line:
  assumes "LF \<notin> set l"
  shows "stdoutLoop f (l @ [LF]) s = ([], f l s)"
proof -
  from assms have "indexOf (l @ [LF]) LF = Some (length l)"
    by (simp add: indexOf_def takeWhile_until)
  then have "stdoutLoop f (l @ [LF]) s = stdoutLoop f [] (f l s)"
    by (subst stdoutLoop.simps) simp
  then show ?thesis
    by (simp add: stdoutLoop_no_newline)
qed

lemma stdoutLoop_rest_no_newline: "LF \<notin> set (fst (stdoutLoop f buf s))"
proof (induction f buf s rule: stdoutLoop.induct)
  case (1 flush buf s)
  show ?case
  proof (cases "indexOf buf LF")
    case None
    then show ?thesis
      by (simp add: stdoutLoop_no_newline indexOf_None)
  next
    case (Some i)
    from "1.IH" [OF Some] show ?thesis
      by (subst stdoutLoop.simps) (simp add: Some)
  qed
qed

text \<open>Text appended behind the buffer is seen by the loop as if it came later.\<close>

lemma stdoutLoop_append:
  "stdoutLoop flush (b1 @ b2) s =
     (case stdoutLoop flush b1 s of (r, s') \<Rightarrow> stdoutLoop flush (r @ b2) s')"
proof (induction flush b1 s rule: stdoutLoop.induct)
  case (1 flush buf s)
  show ?case
  proof (cases "indexOf buf LF")
    case None
    then show ?thesis
      by (simp add: stdoutLoop_no_newline indexOf_None)
  next
    case (Some i)
    then have i: "i < length buf"
      by (rule indexOf_less)
    from Some have app: "indexOf (buf @ b2) LF = Some i"
      by (rule indexOf_append)
    have "stdoutLoop flush (buf @ b2) s =
          stdoutLoop flush (drop (i + 1) buf @ b2) (flush (take i buf) s)"
      using i by (subst stdoutLoop.simps) (simp add: app)
    also have "\<dots> = (case stdoutLoop flush (drop (i + 1) buf) (flush (take i buf) s) of
                        (r, s') \<Rightarrow> stdoutLoop flush (r @ b2) s')"
      using "1.IH" [OF Some] .
    also have "stdoutLoop flush (drop (i + 1) buf) (flush (take i buf) s) = stdoutLoop flush buf s"
      by (subst (2) stdoutLoop.simps) (simp add: Some)
    finally show ?thesis .
  qed
qed

text \<open>A change of the state that the consumer does not see passes through the loop.\<close>

lemma stdoutLoop_commute:
  assumes "\<And>l s. flush l (h s) = h (flush l s)"
  shows "stdoutLoop flush buf (h s) = (case stdoutLoop flush buf s of (r, s') \<Rightarrow> (r, h s'))"
  using assms
proof (induction flush buf s rule: stdoutLoop.induct)
  case (1 flush buf s)
  show ?case
  proof (cases "indexOf buf LF")
    case None
    then show ?thesis
      by (simp add: stdoutLoop_no_newline indexOf_None)
  next
    case (Some i)
    have "stdoutLoop flush buf (h s) = stdoutLoop flush (drop (i + 1) buf) (h (flush (take i buf) s))"
      by (subst stdoutLoop.simps) (simp add: Some "1.prems")
    also have "\<dots> = (case stdoutLoop flush (drop (i + 1) buf) (flush (take i buf) s) of
                        (r, s') \<Rightarrow> (r, h s'))"
      using "1.IH" [OF Some "1.prems"] .
    also have "stdoutLoop flush (drop (i + 1) buf) (flush (take i buf) s) = stdoutLoop flush buf s"
      by (subst (2) stdoutLoop.simps) (simp add: Some)
    finally show ?thesis .
  qed
qed

text \<open>Two consumers run by the loop on the same buffer: a relation between their states that
  every line keeps holds at the end, and the text left over is the same.\<close>

lemma stdoutLoop_simulation:
  assumes "\<And>l s t. R s t \<Longrightarrow> R (f l s) (g l t)"
    and "R s t"
  shows "fst (stdoutLoop f buf s) = fst (stdoutLoop g buf t) \<and>
         R (snd (stdoutLoop f buf s)) (snd (stdoutLoop g buf t))"
  using assms
proof (induction f buf s arbitrary: t rule: stdoutLoop.induct)
  case (1 f buf s)
  show ?case
  proof (cases "indexOf buf LF")
    case None
    then show ?thesis
      using "1.prems" by (simp add: stdoutLoop_no_newline indexOf_None)
  next
    case (Some i)
    have f: "stdoutLoop f buf s = stdoutLoop f (drop (i + 1) buf) (f (take i buf) s)"
      by (subst stdoutLoop.simps) (simp add: Some)
    have g: "stdoutLoop g buf t = stdoutLoop g (drop (i + 1) buf) (g (take i buf) t)"
      by (subst stdoutLoop.simps) (simp add: Some)
    have "R (f (take i buf) s) (g (take i buf) t)"
      using "1.prems" by blast
    from "1.IH" [OF Some "1.prems"(1) this] show ?thesis
      by (simp add: f g)
  qed
qed

lemma stdoutLoop_invariant:
  assumes "\<And>l s. P s \<Longrightarrow> P (f l s)" and "P s"
  shows "P (snd (stdoutLoop f buf s))"
  using stdoutLoop_simulation [of "\<lambda>s t. P s" f "\<lambda>l t. t" s "()" buf] assms
  by simp

lemma feedChunk_twice:
  "feedChunk flush (feedChunk flush bs c1) c2 = feedChunk flush bs (c1 @ c2)"
proof -
  have "stdoutLoop flush (fst bs @ c1 @ c2) (snd bs) =
        (case stdoutLoop flush (fst bs @ c1) (snd bs) of (r, s') \<Rightarrow> stdoutLoop flush (r @ c2) s')"
    using stdoutLoop_append [of flush "fst bs @ c1" c2 "snd bs"] by simp
  then show ?thesis
    by (simp add: feedChunk_def split: prod.splits)
qed

lemma feedChunk_concat:
  "foldl (feedChunk flush) ([], s) chunks = feedChunk flush ([], s) (concat chunks)"
proof (induction chunks rule: rev_induct)
  case Nil
  show ?case
    by (simp add: feedChunk_def stdoutLoop_no_newline)
next
  case (snoc c cs)
  then show ?case
    by (simp add: feedChunk_twice)
qed

lemma stdoutChunks_simps:
  "stdoutChunks [] = []"
  "stdoutChunks (None # ms) = stdoutChunks ms"
  "stdoutChunks (Some f # ms) = (if tag f = str ''stdout'' then payload f # stdoutChunks ms else stdoutChunks ms)"
  by (simp_all add: stdoutChunks_def)

lemma observedLines_one_line:
  assumes "LF \<notin> set l"
  shows "observedLines [stdoutFrame (l @ [LF])] = [l]"
  using assms
  by (simp add: observedLines_def stdoutChunks_def stdoutFrame_def feedChunk_def
      stdoutLoop_one_line flushPartial_def recordLine_def)

lemma observedLines_split:
  "observedLines msgs =
     completedLines (stdoutChunks msgs) @
       (if partialLine (stdoutChunks msgs) = [] then [] else [partialLine (stdoutChunks msgs)])"
  by (simp add: observedLines_def completedLines_def partialLine_def flushPartial_def recordLine_def)

subsection \<open>The handlers\<close>

lemma onMessage_stdout_twice:
  "onMessage verbose exitMarker (stdoutFrame c2) (onMessage verbose exitMarker (stdoutFrame c1) st) =
   onMessage verbose exitMarker (stdoutFrame (c1 @ c2)) st"
proof -
  let ?f = "flushLine verbose exitMarker"
  obtain r1 s1 where l1: "stdoutLoop ?f (stdoutBuffer st @ c1) st = (r1, s1)"
    by (cases "stdoutLoop ?f (stdoutBuffer st @ c1) st")
  obtain r2 s2 where l2: "stdoutLoop ?f (r1 @ c2) s1 = (r2, s2)"
    by (cases "stdoutLoop ?f (r1 @ c2) s1")
  have "stdoutLoop ?f (r1 @ c2) (s1\<lparr>stdoutBuffer := r1\<rparr>) = (r2, s2\<lparr>stdoutBuffer := r1\<rparr>)"
    using stdoutLoop_commute [of ?f "\<lambda>s. s\<lparr>stdoutBuffer := r1\<rparr>" "r1 @ c2" s1]
    by (simp add: flushLine_stdoutBuffer_update l2)
  moreover have "stdoutLoop ?f (stdoutBuffer st @ c1 @ c2) st = (r2, s2)"
    using stdoutLoop_append [of ?f "stdoutBuffer st @ c1" c2 st] by (simp add: l1 l2)
  ultimately show ?thesis
    by (simp add: onMessage_def stdoutFrame_def l1)
qed

lemma onMessage_stdout_empty:
  "onMessage verbose exitMarker (stdoutFrame []) (st\<lparr>stdoutBuffer := []\<rparr>) = st\<lparr>stdoutBuffer := []\<rparr>"
  by (simp add: onMessage_def stdoutFrame_def stdoutLoop_no_newline)

lemma result_onMessage: "result (onMessage verbose exitMarker data st) = result st"
proof (cases data)
  case None
  then show ?thesis
    by (simp add: onMessage_def)
next
  case (Some frame)
  have "result (snd (stdoutLoop (flushLine verbose exitMarker) (stdoutBuffer st @ payload frame) st)) = result st"
    by (rule stdoutLoop_invariant [where P = "\<lambda>s. result s = result st"])
       (simp_all add: result_flushLine)
  with Some show ?thesis
    by (simp add: onMessage_def case_prod_beta)
qed

lemma result_foldl_onMessage:
  "result (foldl (\<lambda>s data. onMessage verbose exitMarker data s) st msgs) = result st"
  by (induction msgs arbitrary: st) (simp_all add: result_onMessage)

lemma onMessage_buffer_no_newline:
  "LF \<notin> set (stdoutBuffer st) \<Longrightarrow> LF \<notin> set (stdoutBuffer (onMessage verbose exitMarker data st))"
proof (cases data)
  case None
  assume "LF \<notin> set (stdoutBuffer st)"
  with None show ?thesis
    by (simp add: onMessage_def)
next
  case (Some frame)
  assume "LF \<notin> set (stdoutBuffer st)"
  with Some show ?thesis
    using stdoutLoop_rest_no_newline
      [of "flushLine verbose exitMarker" "stdoutBuffer st @ payload frame" st]
    by (simp add: onMessage_def case_prod_beta)
qed

lemma foldl_onMessage_buffer_no_newline:
  "LF \<notin> set (stdoutBuffer st) \<Longrightarrow>
   LF \<notin> set (stdoutBuffer (foldl (\<lambda>s data. onMessage verbose exitMarker data s) st msgs))"
  by (induction msgs arbitrary: st) (simp_all add: onMessage_buffer_no_newline)

lemma onMessage_newline:
  assumes "LF \<notin> set (stdoutBuffer st)"
  shows "onMessage verbose exitMarker (stdoutFrame [LF]) st =
         (flushLine verbose exitMarker (stdoutBuffer st) st)\<lparr>stdoutBuffer := []\<rparr>"
  using assms by (simp add: onMessage_def stdoutFrame_def stdoutLoop_one_line)

lemma onClose_after_newline:
  assumes "LF \<notin> set (stdoutBuffer st)"
  shows "onClose verbose exitMarker (onMessage verbose exitMarker (stdoutFrame [LF]) st) =
         onClose verbose exitMarker st"
proof (cases "stdoutBuffer st = []")
  case True
  then have e: "st\<lparr>stdoutBuffer := []\<rparr> = st"
    by simp
  from True assms have "onMessage verbose exitMarker (stdoutFrame [LF]) st = st\<lparr>stdoutBuffer := []\<rparr>"
    by (simp add: onMessage_newline flushLine_Nil)
  then show ?thesis
    by (simp only: e)
next
  case False
  with assms show ?thesis
    by (simp add: onMessage_newline onClose_def)
qed

lemma onMessage_onError:
  "onMessage verbose exitMarker data (onError st) = onError (onMessage verbose exitMarker data st)"
proof (cases data)
  case None
  then show ?thesis
    by (simp add: onMessage_def onError_def settle_def)
next
  case (Some frame)
  have b: "stdoutBuffer (settle (Inl SocketError) st) = stdoutBuffer st"
    by (simp add: settle_def)
  have s: "settle r (s\<lparr>stdoutBuffer := b\<rparr>) = (settle r s)\<lparr>stdoutBuffer := b\<rparr>" for r s b
    by (simp add: settle_def)
  from stdoutLoop_commute [of "flushLine verbose exitMarker" "settle (Inl SocketError)"
      "stdoutBuffer st @ payload frame" st]
  have "stdoutLoop (flushLine verbose exitMarker) (stdoutBuffer st @ payload frame) (settle (Inl SocketError) st) =
        (case stdoutLoop (flushLine verbose exitMarker) (stdoutBuffer st @ payload frame) st of
           (r, s') \<Rightarrow> (r, settle (Inl SocketError) s'))"
    by (simp add: flushLine_settle)
  with Some show ?thesis
    by (simp add: onMessage_def onError_def b s case_prod_beta) (simp add: settle_def)
qed

lemma onClose_result:
  assumes "result st = None"
  shows "result (onClose verbose exitMarker st) =
           Some (Inr (case capturedExitCode (onClose verbose exitMarker st) of
                        Some code \<Rightarrow> code | None \<Rightarrow> Num 1))"
    and "capturedExitCode (onClose verbose exitMarker st) = None \<Longrightarrow>
           WarnNoExitCode \<in> set (consoleLog (onClose verbose exitMarker st))"
  using assms
  by (auto simp: onClose_def settle_def Let_def result_flushLine split: option.splits if_splits)

lemma result_onClose_settled: "result st \<noteq> None \<Longrightarrow> result (onClose verbose exitMarker st) = result st"
  by (auto simp: onClose_def settle_def Let_def result_flushLine split: option.splits)

subsection \<open>The runner follows the recorder\<close>

lemma tracks_onMessage_stdout:
  assumes "tracks verbose exitMarker st0 st bs"
  shows "tracks verbose exitMarker st0 (onMessage verbose exitMarker (stdoutFrame chunk) st)
           (feedChunk recordLine bs chunk)"
proof -
  let ?R = "\<lambda>(s::runner_state) t.
      capturedExitCode s = capturedExitCode (replay verbose exitMarker t st0) \<and>
      stdoutWrites s = stdoutWrites (replay verbose exitMarker t st0)"
  have step: "?R (flushLine verbose exitMarker l s) (recordLine l t)" if "?R s t" for l s t
    using that flushLine_cong [of s "replay verbose exitMarker t st0" verbose exitMarker l]
    by (simp add: recordLine_def replay_snoc)
  from assms have "?R st (snd bs)" and b: "stdoutBuffer st = fst bs"
    by (simp_all add: tracks_def)
  from stdoutLoop_simulation [of ?R "flushLine verbose exitMarker" recordLine st "snd bs" "fst bs @ chunk", OF step this(1)]
  show ?thesis
    by (simp add: tracks_def onMessage_def stdoutFrame_def feedChunk_def b case_prod_beta)
qed

lemma tracks_foldl:
  "tracks verbose exitMarker st0 st bs \<Longrightarrow>
   tracks verbose exitMarker st0 (foldl (\<lambda>s data. onMessage verbose exitMarker data s) st msgs)
     (foldl (feedChunk recordLine) bs (stdoutChunks msgs))"
proof (induction msgs arbitrary: st bs)
  case Nil
  then show ?case
    by (simp add: stdoutChunks_simps)
next
  case (Cons d ds)
  show ?case
  proof (cases d)
    case None
    from Cons.prems have "tracks verbose exitMarker st0 (onMessage verbose exitMarker None st) bs"
      by (simp add: tracks_def onMessage_def)
    from Cons.IH [OF this] None show ?thesis
      by (simp add: stdoutChunks_simps)
  next
    case (Some f)
    show ?thesis
    proof (cases "tag f = str ''stdout''")
      case True
      then have d: "d = stdoutFrame (payload f)"
        using Some by (cases f) (simp add: stdoutFrame_def)
      from tracks_onMessage_stdout [OF Cons.prems]
      have "tracks verbose exitMarker st0 (onMessage verbose exitMarker d st) (feedChunk recordLine bs (payload f))"
        by (simp add: d)
      from Cons.IH [OF this] Some True show ?thesis
        by (simp add: stdoutChunks_simps)
    next
      case False
      from Cons.prems False have "tracks verbose exitMarker st0 (onMessage verbose exitMarker (Some f) st) bs"
        by (simp add: tracks_def onMessage_def)
      from Cons.IH [OF this] Some False show ?thesis
        by (simp add: stdoutChunks_simps)
    qed
  qed
qed

lemma tracks_onClose:
  assumes "tracks verbose exitMarker st0 st bs"
  shows "tracks verbose exitMarker st0 (onClose verbose exitMarker st) (flushPartial recordLine bs)"
proof (cases "stdoutBuffer st = []")
  case True
  with assms show ?thesis
    by (simp add: tracks_def flushPartial_def onClose_def settle_def split: option.splits)
next
  case False
  let ?s1 = "flushLine verbose exitMarker (stdoutBuffer st) st"
  from assms have
    "capturedExitCode ?s1 = capturedExitCode (replay verbose exitMarker (snd bs @ [fst bs]) st0)"
    "stdoutWrites ?s1 = stdoutWrites (replay verbose exitMarker (snd bs @ [fst bs]) st0)"
    using flushLine_cong [of st "replay verbose exitMarker (snd bs) st0" verbose exitMarker "stdoutBuffer st"]
    by (simp_all add: tracks_def replay_snoc)
  with False assms show ?thesis
    by (simp add: tracks_def flushPartial_def onClose_def settle_def recordLine_def Let_def
        split: option.splits)
qed

lemma tracks_streamCommand_closed:
  "tracks verbose exitMarker (streamStart st)
     (streamCommand verbose command exitMarker msgs Closed st)
     ([], observedLines msgs)"
proof -
  let ?st1 = "st\<lparr>stdoutBuffer := [], capturedExitCode := None,
      network := network st @ [SocketSend (Frame (str ''stdin'') (wrappedPayload command exitMarker))]\<rparr>"
  let ?bs = "foldl (feedChunk recordLine) ([], []) (stdoutChunks msgs)"
  have "tracks verbose exitMarker (streamStart st) ?st1 ([], [])"
    by (simp add: tracks_def replay_def streamStart_def)
  then have "tracks verbose exitMarker (streamStart st)
      (foldl (\<lambda>s data. onMessage verbose exitMarker data s) ?st1 msgs) ?bs"
    by (rule tracks_foldl)
  then have t: "tracks verbose exitMarker (streamStart st)
      (onClose verbose exitMarker (foldl (\<lambda>s data. onMessage verbose exitMarker data s) ?st1 msgs))
      (flushPartial recordLine ?bs)"
    by (rule tracks_onClose)
  have "fst (flushPartial recordLine ?bs) = []"
    by (simp add: flushPartial_def)
  with t show ?thesis
    by (simp add: streamCommand_def Let_def observedLines_def tracks_def)
qed

subsection \<open>Runs\<close>

lemma run_handshake:
  assumes "trim command \<noteq> []"
    and "fetched w = Response True statusText (Some name)"
    and "opened w = Opens"
  shows "run verbose runtime w command =
     streamCommand verbose command (EXIT_SENTINEL_PREFIX @ uuid w) (messages w) (ending w)
       (handshakeState verbose runtime name command)"
  using assms
  by (simp add: run_def createRemoteTerminal_def executeInTerminal_def handshakeState_def
      initialState_def Let_def)

lemma result_handshakeState: "result (handshakeState verbose runtime name command) = None"
  by (simp add: handshakeState_def initialState_def)

lemma streamCommand_closed_result:
  assumes "result st = None"
  shows "result (streamCommand verbose command exitMarker msgs Closed st) =
           Some (Inr (case capturedExitCode (replay verbose exitMarker (observedLines msgs) (streamStart st)) of
                        Some code \<Rightarrow> code | None \<Rightarrow> Num 1))"
    and "capturedExitCode (replay verbose exitMarker (observedLines msgs) (streamStart st)) = None \<Longrightarrow>
           WarnNoExitCode \<in> set (consoleLog (streamCommand verbose command exitMarker msgs Closed st))"
proof -
  let ?st1 = "st\<lparr>stdoutBuffer := [], capturedExitCode := None,
      network := network st @ [SocketSend (Frame (str ''stdin'') (wrappedPayload command exitMarker))]\<rparr>"
  let ?st2 = "foldl (\<lambda>s data. onMessage verbose exitMarker data s) ?st1 msgs"
  have sc: "streamCommand verbose command exitMarker msgs Closed st = onClose verbose exitMarker ?st2"
    by (simp add: streamCommand_def Let_def)
  have r: "result ?st2 = None"
    using assms by (simp add: result_foldl_onMessage)
  have c: "capturedExitCode (onClose verbose exitMarker ?st2) =
           capturedExitCode (replay verbose exitMarker (observedLines msgs) (streamStart st))"
    using tracks_streamCommand_closed [of verbose exitMarker st command msgs]
    by (simp add: tracks_def sc)
  from onClose_result(1) [OF r] c
  show "result (streamCommand verbose command exitMarker msgs Closed st) =
           Some (Inr (case capturedExitCode (replay verbose exitMarker (observedLines msgs) (streamStart st)) of
                        Some code \<Rightarrow> code | None \<Rightarrow> Num 1))"
    by (simp add: sc)
  assume "capturedExitCode (replay verbose exitMarker (observedLines msgs) (streamStart st)) = None"
  with onClose_result(2) [OF r] c
  show "WarnNoExitCode \<in> set (consoleLog (streamCommand verbose command exitMarker msgs Closed st))"
    by (simp add: sc)
qed

lemma streamCommand_result_other:
  assumes "result st = None" and "fin \<noteq> Closed"
  shows "result (streamCommand verbose command exitMarker msgs fin st) =
           (if fin = Pending then None else Some (Inl SocketError))"
proof -
  let ?st1 = "st\<lparr>stdoutBuffer := [], capturedExitCode := None,
      network := network st @ [SocketSend (Frame (str ''stdin'') (wrappedPayload command exitMarker))]\<rparr>"
  let ?st2 = "foldl (\<lambda>s data. onMessage verbose exitMarker data s) ?st1 msgs"
  have r: "result ?st2 = None"
    using assms(1) by (simp add: result_foldl_onMessage)
  then have e: "result (onError ?st2) = Some (Inl SocketError)"
    by (simp add: onError_def settle_def)
  then have "result (onClose verbose exitMarker (onError ?st2)) = Some (Inl SocketError)"
    by (simp add: result_onClose_settled)
  with r e assms(2) show ?thesis
    by (cases fin) (simp_all add: streamCommand_def Let_def)
qed

lemma streamCommand_newline_closed:
  "streamCommand verbose command exitMarker (msgs @ [stdoutFrame [LF]]) Closed st =
   streamCommand verbose command exitMarker msgs Closed st"
proof -
  let ?st1 = "st\<lparr>stdoutBuffer := [], capturedExitCode := None,
      network := network st @ [SocketSend (Frame (str ''stdin'') (wrappedPayload command exitMarker))]\<rparr>"
  have "LF \<notin> set (stdoutBuffer ?st1)"
    by simp
  then have "LF \<notin> set (stdoutBuffer (foldl (\<lambda>s data. onMessage verbose exitMarker data s) ?st1 msgs))"
    by (rule foldl_onMessage_buffer_no_newline)
  then show ?thesis
    by (simp add: streamCommand_def Let_def onClose_after_newline)
qed

lemma streamCommand_newline_errored_closed:
  "streamCommand verbose command exitMarker (msgs @ [stdoutFrame [LF]]) ErroredThenClosed st =
   streamCommand verbose command exitMarker msgs ErroredThenClosed st"
proof -
  let ?st1 = "st\<lparr>stdoutBuffer := [], capturedExitCode := None,
      network := network st @ [SocketSend (Frame (str ''stdin'') (wrappedPayload command exitMarker))]\<rparr>"
  let ?st2 = "foldl (\<lambda>s data. onMessage verbose exitMarker data s) ?st1 msgs"
  have "LF \<notin> set (stdoutBuffer ?st1)"
    by simp
  then have "LF \<notin> set (stdoutBuffer ?st2)"
    by (rule foldl_onMessage_buffer_no_newline)
  then have "LF \<notin> set (stdoutBuffer (onError ?st2))"
    by (simp add: onError_def settle_def)
  then have "onClose verbose exitMarker (onMessage verbose exitMarker (stdoutFrame [LF]) (onError ?st2)) =
        onClose verbose exitMarker (onError ?st2)"
    by (rule onClose_after_newline)
  then show ?thesis
    by (simp add: streamCommand_def Let_def onMessage_onError)
qed

lemma run_sentinel_line:
  assumes "trim command \<noteq> []"
    and "fetched w = Response True statusText (Some name)"
    and "opened w = Opens"
    and "ending w = Closed"
    and "isUuid (uuid w)"
    and "pre = [] \<or> pre = PROMPT_PREFIX"
    and "list_all isWhiteSpace pad1" and "list_all isWhiteSpace pad2"
    and "CR \<notin> set (pad1 @ r @ pad2)" and "ESC \<notin> set r"
    and "r = [] \<or> \<not> isWhiteSpace (last r)"
    and "decorated (pre @ pad1 @ EXIT_SENTINEL_PREFIX @ uuid w @ str '':'' @ r @ pad2) line"
    and "LF \<notin> set line"
    and "messages w = [stdoutFrame (line @ [LF])]"
  shows "result (run verbose runtime w command) =
           Some (Inr (if isNaN (parseInt r) then Num 1 else parseInt r))"
    and "capturedExitCode (run verbose runtime w command) =
           (if isNaN (parseInt r) then None else Some (parseInt r))"
    and "stdoutWrites (run verbose runtime w command) = []"
proof -
  let ?m = "EXIT_SENTINEL_PREFIX @ uuid w"
  let ?h = "handshakeState verbose runtime name command"
  let ?msgs = "[stdoutFrame (line @ [LF])]"
  let ?c = "if isNaN (parseInt r) then None else Some (parseInt r)"
  have run: "run verbose runtime w command = streamCommand verbose command ?m ?msgs Closed ?h"
    using run_handshake [OF assms(1-3)] assms(4,14) by simp
  from assms(13) have obs: "observedLines ?msgs = [line]"
    by (rule observedLines_one_line)
  note f = flushLine_sentinel [OF assms(5-12)]
  have c: "capturedExitCode (replay verbose ?m (observedLines ?msgs) (streamStart ?h)) = ?c"
    unfolding obs replay_def by (simp add: f streamStart_def)
  have o: "stdoutWrites (replay verbose ?m (observedLines ?msgs) (streamStart ?h)) = []"
    unfolding obs replay_def
    by (simp add: f streamStart_def handshakeState_def initialState_def)
  from streamCommand_closed_result(1)
      [where st = ?h and verbose = verbose and command = command and exitMarker = ?m
         and msgs = ?msgs, OF result_handshakeState]
  show "result (run verbose runtime w command) =
           Some (Inr (if isNaN (parseInt r) then Num 1 else parseInt r))"
    unfolding run c by simp
  from tracks_streamCommand_closed [of verbose ?m ?h command ?msgs]
  have t: "capturedExitCode (streamCommand verbose command ?m ?msgs Closed ?h) =
        capturedExitCode (replay verbose ?m (observedLines ?msgs) (streamStart ?h))"
      "stdoutWrites (streamCommand verbose command ?m ?msgs Closed ?h) =
        stdoutWrites (replay verbose ?m (observedLines ?msgs) (streamStart ?h))"
    by (simp_all add: tracks_def)
  from t(1) show "capturedExitCode (run verbose runtime w command) = ?c"
    unfolding run c .
  from t(2) show "stdoutWrites (run verbose runtime w command) = []"
    unfolding run o .
qed

lemma sentinelWorld_simps:
  "fetched (sentinelWorld line) = Response True (str ''OK'') (Some (str ''1''))"
  "opened (sentinelWorld line) = Opens"
  "ending (sentinelWorld line) = Closed"
  "uuid (sentinelWorld line) = exampleUuid"
  "messages (sentinelWorld line) = [stdoutFrame (line @ [LF])]"
  by (simp_all add: sentinelWorld_def exampleWorld_def)

lemma decorated_prepend: "decorated s line \<Longrightarrow> decorated (p @ s) (p @ line)"
  by (induction p) (auto intro: decorated.keep)

lemma plainSentinel_decorated:
  "decorated ([] @ [] @ EXIT_SENTINEL_PREFIX @ uuid (sentinelWorld l) @ str '':'' @ r @ [])
     (plainSentinel r)"
  by (simp add: plainSentinel_def exampleMarker_def sentinelWorld_simps decorated_refl)

lemma decoratedSentinel_decorated:
  "decorated (PROMPT_PREFIX @ [] @ EXIT_SENTINEL_PREFIX @ uuid (sentinelWorld l) @ str '':'' @ r @ str '' '')
     (decoratedSentinel r)"
proof -
  let ?x = "PROMPT_PREFIX @ exampleMarker @ str '':'' @ r @ str '' ''"
  have "decorated [] [CR]"
    by (intro decorated.carriageReturn decorated.plain)
  then have "decorated (?x @ []) (?x @ [CR])"
    by (rule decorated_prepend)
  with isEscapeSequence_examples(1) have "decorated (?x @ []) (([ESC] @ str ''[0m'') @ ?x @ [CR])"
    by (rule decorated.escape)
  then show ?thesis
    by (simp add: decoratedSentinel_def exampleMarker_def sentinelWorld_simps)
qed

lemma exampleMarker_plain: "LF \<notin> set exampleMarker"
  by (simp add: exampleMarker_def EXIT_SENTINEL_PREFIX_def exampleUuid_def str_def LF_def)

lemma sentinel_no_LF:
  "LF \<notin> set r \<Longrightarrow> LF \<notin> set (plainSentinel r)"
  "LF \<notin> set r \<Longrightarrow> LF \<notin> set (decoratedSentinel r)"
  using exampleMarker_plain
  by (simp_all add: plainSentinel_def decoratedSentinel_def PROMPT_PREFIX_def str_def LF_def ESC_def CR_def)

subsection \<open>What is written\<close>

lemma written_flushLine:
  "list_all isWrittenLine (stdoutWrites s) \<Longrightarrow>
   list_all isWrittenLine (stdoutWrites (flushLine verbose exitMarker l s))"
  by (simp add: flushLine_def Let_def isWrittenLine_def split: option.splits)

lemma written_onMessage:
  assumes "list_all isWrittenLine (stdoutWrites st)"
  shows "list_all isWrittenLine (stdoutWrites (onMessage verbose exitMarker data st))"
proof (cases data)
  case None
  with assms show ?thesis
    by (simp add: onMessage_def)
next
  case (Some frame)
  have "list_all isWrittenLine
      (stdoutWrites (snd (stdoutLoop (flushLine verbose exitMarker) (stdoutBuffer st @ payload frame) st)))"
    by (rule stdoutLoop_invariant [where P = "\<lambda>s. list_all isWrittenLine (stdoutWrites s)"])
       (simp_all add: written_flushLine assms)
  with Some assms show ?thesis
    by (simp add: onMessage_def case_prod_beta)
qed

lemma written_foldl:
  "list_all isWrittenLine (stdoutWrites st) \<Longrightarrow>
   list_all isWrittenLine (stdoutWrites (foldl (\<lambda>s data. onMessage verbose exitMarker data s) st msgs))"
  by (induction msgs arbitrary: st) (simp_all add: written_onMessage)

lemma stdoutWrites_settle: "stdoutWrites (settle r s) = stdoutWrites s"
  by (simp add: settle_def)

lemma written_onClose:
  assumes "list_all isWrittenLine (stdoutWrites st)"
  shows "list_all isWrittenLine (stdoutWrites (onClose verbose exitMarker st))"
proof -
  have "list_all isWrittenLine (stdoutWrites (flushLine verbose exitMarker (stdoutBuffer st) st))"
    using assms by (rule written_flushLine)
  with assms show ?thesis
    by (simp add: onClose_def Let_def stdoutWrites_settle split: option.splits)
qed

lemma written_streamCommand:
  assumes "list_all isWrittenLine (stdoutWrites st)"
  shows "list_all isWrittenLine (stdoutWrites (streamCommand verbose command exitMarker msgs fin st))"
proof -
  let ?st1 = "st\<lparr>stdoutBuffer := [], capturedExitCode := None,
      network := network st @ [SocketSend (Frame (str ''stdin'') (wrappedPayload command exitMarker))]\<rparr>"
  let ?st2 = "foldl (\<lambda>s data. onMessage verbose exitMarker data s) ?st1 msgs"
  have "list_all isWrittenLine (stdoutWrites ?st1)"
    using assms by simp
  then have 2: "list_all isWrittenLine (stdoutWrites ?st2)"
    by (rule written_foldl)
  then have 3: "list_all isWrittenLine (stdoutWrites (onError ?st2))"
    by (simp add: onError_def stdoutWrites_settle)
  from 2 3 written_onClose [OF 2] written_onClose [OF 3] show ?thesis
    by (cases fin) (simp_all add: streamCommand_def Let_def)
qed

lemma written_run: "list_all isWrittenLine (stdoutWrites (run verbose runtime w command))"
proof -
  have s: "list_all isWrittenLine (stdoutWrites
      (streamCommand verbose command m msgs fin
        (initialState\<lparr>consoleLog := c, network := n\<rparr>)))" for m msgs fin c n
    by (rule written_streamCommand) (simp add: initialState_def)
  show ?thesis
  proof (cases "fetched w")
    case FetchPending
    then show ?thesis
      by (simp add: run_def createRemoteTerminal_def initialState_def)
  next
    case FetchFails
    then show ?thesis
      by (simp add: run_def createRemoteTerminal_def initialState_def)
  next
    case (Response ok statusText name)
    show ?thesis
    proof (cases "ok \<and> name \<noteq> None \<and> opened w = Opens \<and> trim command \<noteq> []")
      case True
      then obtain n where "name = Some n"
        by auto
      with True Response have "run verbose runtime w command =
          streamCommand verbose command (EXIT_SENTINEL_PREFIX @ uuid w) (messages w) (ending w)
            (handshakeState verbose runtime n command)"
        by (intro run_handshake) auto
      then show ?thesis
        by (simp add: handshakeState_def s)
    next
      case False
      with Response show ?thesis
        by (cases name; cases "opened w")
           (auto simp: run_def createRemoteTerminal_def executeInTerminal_def initialState_def Let_def)
    qed
  qed
qed

subsection \<open>States that differ in the console only\<close>

lemma sameButLog_log: "sameButLog (s\<lparr>consoleLog := x\<rparr>) s"
  by (simp add: sameButLog_def)

lemma sameButLog_flushLine:
  "sameButLog s t \<Longrightarrow>
   sameButLog (flushLine verbose exitMarker l s) (flushLine verbose exitMarker l t)"
  by (simp add: sameButLog_def flushLine_def Let_def split: option.splits)

lemma sameButLog_update:
  "sameButLog s t \<Longrightarrow> sameButLog (s\<lparr>stdoutBuffer := b\<rparr>) (t\<lparr>stdoutBuffer := b\<rparr>)"
  "sameButLog s t \<Longrightarrow> sameButLog (s\<lparr>stderrWrites := e\<rparr>) (t\<lparr>stderrWrites := e\<rparr>)"
  "sameButLog s t \<Longrightarrow> sameButLog (s\<lparr>consoleLog := x\<rparr>) (t\<lparr>consoleLog := y\<rparr>)"
  "sameButLog s t \<Longrightarrow> sameButLog (s\<lparr>result := r\<rparr>) (t\<lparr>result := r\<rparr>)"
  by (simp_all add: sameButLog_def)

lemma sameButLog_onMessage:
  assumes "sameButLog s t"
  shows "sameButLog (onMessage verbose exitMarker data s) (onMessage verbose exitMarker data t)"
proof (cases data)
  case None
  with assms show ?thesis
    by (simp add: onMessage_def sameButLog_update)
next
  case (Some frame)
  from assms have f: "stdoutBuffer s = stdoutBuffer t"
    by (simp add: sameButLog_def)
  let ?buf = "stdoutBuffer s @ payload frame"
  from stdoutLoop_simulation [of sameButLog "flushLine verbose exitMarker" "flushLine verbose exitMarker" s t ?buf]
  have l: "fst (stdoutLoop (flushLine verbose exitMarker) ?buf s) = fst (stdoutLoop (flushLine verbose exitMarker) ?buf t)"
    "sameButLog (snd (stdoutLoop (flushLine verbose exitMarker) ?buf s))
                (snd (stdoutLoop (flushLine verbose exitMarker) ?buf t))"
    using assms by (simp_all add: sameButLog_flushLine)
  show ?thesis
  proof (cases "tag frame = str ''stdout''")
    case True
    with Some l show ?thesis
      by (simp add: onMessage_def case_prod_beta f [symmetric] sameButLog_update)
  next
    case False
    with Some assms show ?thesis
      by (simp add: onMessage_def sameButLog_def)
  qed
qed

lemma sameButLog_foldl:
  "sameButLog s t \<Longrightarrow>
   sameButLog (foldl (\<lambda>s data. onMessage verbose exitMarker data s) s msgs)
              (foldl (\<lambda>s data. onMessage verbose exitMarker data s) t msgs)"
  by (induction msgs arbitrary: s t) (simp_all add: sameButLog_onMessage)

lemma sameButLog_settle: "sameButLog s t \<Longrightarrow> sameButLog (settle r s) (settle r t)"
  by (simp add: settle_def sameButLog_def)

lemma sameButLog_onClose:
  assumes "sameButLog s t"
  shows "sameButLog (onClose verbose exitMarker s) (onClose verbose exitMarker t)"
proof -
  from assms have f: "stdoutBuffer s = stdoutBuffer t"
    by (simp add: sameButLog_def)
  let ?s1 = "if length (stdoutBuffer s) > 0
             then (flushLine verbose exitMarker (stdoutBuffer s) s)\<lparr>stdoutBuffer := []\<rparr> else s"
  let ?t1 = "if length (stdoutBuffer t) > 0
             then (flushLine verbose exitMarker (stdoutBuffer t) t)\<lparr>stdoutBuffer := []\<rparr> else t"
  have 1: "sameButLog ?s1 ?t1"
    using assms by (simp add: f sameButLog_update sameButLog_flushLine)
  then have g: "capturedExitCode ?s1 = capturedExitCode ?t1"
    by (simp add: sameButLog_def)
  show ?thesis
  proof (cases "capturedExitCode ?t1")
    case None
    with 1 g show ?thesis
      unfolding onClose_def Let_def
      by (simp only: option.case) (intro sameButLog_settle sameButLog_update)
  next
    case (Some code)
    with 1 g show ?thesis
      unfolding onClose_def Let_def
      by (simp only: option.case) (intro sameButLog_settle)
  qed
qed

lemma sameButLog_streamCommand_malformed:
  "sameButLog (streamCommand verbose command exitMarker (ms1 @ None # ms2) fin st)
              (streamCommand verbose command exitMarker (ms1 @ ms2) fin st)"
proof -
  let ?st1 = "st\<lparr>stdoutBuffer := [], capturedExitCode := None,
      network := network st @ [SocketSend (Frame (str ''stdin'') (wrappedPayload command exitMarker))]\<rparr>"
  let ?a = "foldl (\<lambda>s data. onMessage verbose exitMarker data s) ?st1 ms1"
  have "sameButLog (onMessage verbose exitMarker None ?a) ?a"
    by (simp add: onMessage_def sameButLog_log)
  then have 2: "sameButLog (foldl (\<lambda>s data. onMessage verbose exitMarker data s) (onMessage verbose exitMarker None ?a) ms2)
                        (foldl (\<lambda>s data. onMessage verbose exitMarker data s) ?a ms2)"
    by (rule sameButLog_foldl)
  then have 3: "sameButLog (onError (foldl (\<lambda>s data. onMessage verbose exitMarker data s) (onMessage verbose exitMarker None ?a) ms2))
                        (onError (foldl (\<lambda>s data. onMessage verbose exitMarker data s) ?a ms2))"
    unfolding onError_def by (rule sameButLog_settle)
  from 2 3 sameButLog_onClose [OF 2] sameButLog_onClose [OF 3] show ?thesis
    by (cases fin) (simp_all add: streamCommand_def Let_def)
qed

section \<open>The claims\<close>

text \<open>
  C1. In a run that reaches \<open>streamCommand\<close> and hands no sentinel line to \<open>flushLine\<close>:
  when the socket closes, \<open>run\<close> returns 1 and the warning is printed; and however the socket
  ends, \<open>run\<close> does not return 0, of either sign.
\<close>

theorem no_sentinel_means_failure:
  assumes "trim command \<noteq> []"
    and "fetched w = Response True statusText (Some name)"
    and "opened w = Opens"
    and "\<not> list_ex (isSentinelLine (EXIT_SENTINEL_PREFIX @ uuid w)) (observedLines (messages w))"
  shows "(ending w = Closed \<longrightarrow>
            result (run verbose runtime w command) = Some (Inr (Num 1)) \<and>
            WarnNoExitCode \<in> set (consoleLog (run verbose runtime w command))) \<and>
         result (run verbose runtime w command) \<noteq> Some (Inr (Num 0)) \<and>
         result (run verbose runtime w command) \<noteq> Some (Inr NegZero)"
proof -
  let ?m = "EXIT_SENTINEL_PREFIX @ uuid w"
  let ?h = "handshakeState verbose runtime name command"
  have run: "run verbose runtime w command = streamCommand verbose command ?m (messages w) (ending w) ?h"
    by (rule run_handshake [OF assms(1-3)])
  have none: "capturedExitCode (replay verbose ?m (observedLines (messages w)) (streamStart ?h)) = None"
    using replay_no_sentinel [OF assms(4)] by (simp add: streamStart_def)
  note closed = streamCommand_closed_result
      [where st = ?h and verbose = verbose and command = command and exitMarker = ?m
         and msgs = "messages w", OF result_handshakeState]
  show ?thesis
  proof (cases "ending w = Closed")
    case True
    with closed none show ?thesis
      by (simp add: run)
  next
    case False
    from streamCommand_result_other [OF result_handshakeState False] False show ?thesis
      by (simp add: run)
  qed
qed

theorem no_sentinel_means_failure_witness:
  "observedLines (messages quietWorld) = [str ''hi''] \<and>
   \<not> isSentinelLine (EXIT_SENTINEL_PREFIX @ uuid quietWorld) (str ''hi'') \<and>
   ending quietWorld = Closed \<and>
   result (run False exampleRuntime quietWorld (str ''ls'')) = Some (Inr (Num 1)) \<and>
   WarnNoExitCode \<in> set (consoleLog (run False exampleRuntime quietWorld (str ''ls'')))"
proof -
  have w: "fetched quietWorld = Response True (str ''OK'') (Some (str ''1''))"
    "opened quietWorld = Opens" "ending quietWorld = Closed"
    by (simp_all add: quietWorld_def exampleWorld_def)
  have "LF \<notin> set (str ''hi'')"
    by (simp add: str_def LF_def)
  then have o: "observedLines (messages quietWorld) = [str ''hi'']"
    by (simp add: quietWorld_def observedLines_one_line)
  have t: "detectionTarget (str ''hi'') = str ''hi''"
    by (simp add: detectionTarget_def withoutPrompt_def normalized_def trim_def str_def CR_def ESC_def
        PROMPT_PREFIX_def startsWith_def isWhiteSpace_def)
  have s: "\<not> isSentinelLine (EXIT_SENTINEL_PREFIX @ uuid quietWorld) (str ''hi'')"
    unfolding isSentinelLine_def t
    by (intro startsWith_hd) (simp_all add: EXIT_SENTINEL_PREFIX_def str_def)
  then have h: "\<not> list_ex (isSentinelLine (EXIT_SENTINEL_PREFIX @ uuid quietWorld))
      (observedLines (messages quietWorld))"
    by (simp add: o)
  from no_sentinel_means_failure [OF trim_ls w(1) w(2) h, of False exampleRuntime] w(3) o s
  show ?thesis
    by simp
qed

text \<open>
  C2, as stated, fails: the text \<^verbatim>\<open>12abc\<close> is not a base-10 integer, and the line of the
  marker, a colon and \<^verbatim>\<open>12abc\<close>, followed by the close, sets the exit code: \<open>run\<close>
  returns 12.
\<close>

theorem digits_before_other_text_set_exit_code:
  "\<not> isDecimalInteger (str ''12abc'') \<and>
   capturedExitCode (run False exampleRuntime (sentinelWorld (plainSentinel (str ''12abc''))) (str ''ls''))
     = Some (Num 12) \<and>
   result (run False exampleRuntime (sentinelWorld (plainSentinel (str ''12abc''))) (str ''ls''))
     = Some (Inr (Num 12))"
proof -
  have r: "CR \<notin> set ([] @ str ''12abc'' @ [])" "ESC \<notin> set (str ''12abc'')"
      "str ''12abc'' = [] \<or> \<not> isWhiteSpace (last (str ''12abc''))" "LF \<notin> set (str ''12abc'')"
    by (simp_all add: str_def CR_def ESC_def LF_def isWhiteSpace_def)
  have u: "isUuid (uuid (sentinelWorld l))" for l
    by (simp add: sentinelWorld_simps isUuid_example)
  note t = run_sentinel_line
    [OF trim_ls sentinelWorld_simps(1) sentinelWorld_simps(2) sentinelWorld_simps(3) u,
      where verbose = False and runtime = exampleRuntime]
  have n: "\<not> isDecimalInteger (str ''12abc'')"
    by (simp add: isDecimalInteger_def str_def isDigit_def)
  from t(1,2) [OF _ _ _ r(1,2,3) plainSentinel_decorated sentinel_no_LF(1) [OF r(4)] sentinelWorld_simps(5)] n
  show ?thesis
    by (simp add: parseInt_examples isNaN_def)
qed

text \<open>
  C2, amended. A line whose text, after the removal of carriage returns, escape sequences and
  the prompt and after trimming, starts with the marker and a colon writes nothing, and what
  follows the colon is read as \<^verbatim>\<open>Number.parseInt\<close> reads it: white space is skipped, one
  sign is read, then the digits up to the first code unit that is no digit; what follows
  the digits is ignored. With one digit at least the number read becomes the exit code (a
  decimal numeral up to \<open>2 ^ 53\<close> is read as its value, negated behind a minus sign); with
  none the exit code stays as it was. In a run whose only output is such a line, decorated, followed by the close,
  \<open>run\<close> returns the number read, and 1 with no exit code captured when there is no digit
  to read.
\<close>

theorem sentinel_line_sets_exit_code:
  assumes "trim command \<noteq> []"
    and "fetched w = Response True statusText (Some name)"
    and "opened w = Opens"
    and "ending w = Closed"
    and "isUuid (uuid w)"
    and "pre = [] \<or> pre = PROMPT_PREFIX"
    and "list_all isWhiteSpace pad1" and "list_all isWhiteSpace pad2"
    and "CR \<notin> set (pad1 @ r @ pad2)" and "ESC \<notin> set r"
    and "r = [] \<or> \<not> isWhiteSpace (last r)"
    and "decorated (pre @ pad1 @ EXIT_SENTINEL_PREFIX @ uuid w @ str '':'' @ r @ pad2) line"
    and "LF \<notin> set line"
    and "messages w = [stdoutFrame (line @ [LF])]"
  shows "(isSentinelLine exitMarker l \<longrightarrow>
            flushLine verbose exitMarker l st =
              (let code = parseInt (drop (length exitMarker + 1) (detectionTarget l))
               in if \<not> isNaN code then st\<lparr>capturedExitCode := Some code\<rparr> else st)) \<and>
         (isNaN (parseInt s) \<longleftrightarrow>
            \<not> (\<exists>pad sg d rest. s = pad @ sg @ d # rest \<and> list_all isWhiteSpace pad \<and>
                 (sg = [] \<or> sg = [0x2B] \<or> sg = [0x2D]) \<and> isDigit d)) \<and>
         (list_all isWhiteSpace pad \<and> (rest = [] \<or> \<not> isDigit (hd rest)) \<and> n \<le> 2 ^ 53 \<longrightarrow>
            parseInt (pad @ decimal n @ rest) = Num (int n) \<and>
            parseInt (pad @ 0x2D # decimal n @ rest) = (if n = 0 then NegZero else Num (- int n))) \<and>
         result (run verbose runtime w command) =
           Some (Inr (if isNaN (parseInt r) then Num 1 else parseInt r)) \<and>
         capturedExitCode (run verbose runtime w command) =
           (if isNaN (parseInt r) then None else Some (parseInt r)) \<and>
         stdoutWrites (run verbose runtime w command) = []"
proof (intro conjI impI)
  assume "isSentinelLine exitMarker l"
  then show "flushLine verbose exitMarker l st =
      (let code = parseInt (drop (length exitMarker + 1) (detectionTarget l))
       in if \<not> isNaN code then st\<lparr>capturedExitCode := Some code\<rparr> else st)"
    by (rule flushLine_at_sentinel)
next
  show "isNaN (parseInt s) \<longleftrightarrow>
      \<not> (\<exists>pad sg d rest. s = pad @ sg @ d # rest \<and> list_all isWhiteSpace pad \<and>
           (sg = [] \<or> sg = [0x2B] \<or> sg = [0x2D]) \<and> isDigit d)"
    by (rule parseInt_NaN_iff)
next
  assume a: "list_all isWhiteSpace pad \<and> (rest = [] \<or> \<not> isDigit (hd rest)) \<and> n \<le> 2 ^ 53"
  then show "parseInt (pad @ decimal n @ rest) = Num (int n)"
    by (simp add: parseInt_decimal_text)
  from a show "parseInt (pad @ 0x2D # decimal n @ rest) = (if n = 0 then NegZero else Num (- int n))"
    by (simp add: parseInt_negative_text)
next
  show "result (run verbose runtime w command) =
      Some (Inr (if isNaN (parseInt r) then Num 1 else parseInt r))"
    by (rule run_sentinel_line(1) [OF assms])
next
  show "capturedExitCode (run verbose runtime w command) =
      (if isNaN (parseInt r) then None else Some (parseInt r))"
    by (rule run_sentinel_line(2) [OF assms])
next
  show "stdoutWrites (run verbose runtime w command) = []"
    by (rule run_sentinel_line(3) [OF assms])
qed

text \<open>
  The three runs of the claim: \<^verbatim>\<open>:0\<close> returns 0; \<^verbatim>\<open>:137\<close>, here behind an escape
  sequence and the prompt and with a space and a carriage return at the end of the line,
  returns 137; \<^verbatim>\<open>:abc\<close> returns 1. And a run that returns the nearest double.
\<close>

theorem sentinel_line_sets_exit_code_witness:
  "isUuid exampleUuid \<and> trim (str ''ls'') \<noteq> [] \<and>
   result (run False exampleRuntime (sentinelWorld (plainSentinel (str ''0''))) (str ''ls''))
     = Some (Inr (Num 0)) \<and>
   result (run False exampleRuntime (sentinelWorld (decoratedSentinel (str ''137''))) (str ''ls''))
     = Some (Inr (Num 137)) \<and>
   result (run False exampleRuntime (sentinelWorld (plainSentinel (str ''abc''))) (str ''ls''))
     = Some (Inr (Num 1)) \<and>
   capturedExitCode (run False exampleRuntime (sentinelWorld (plainSentinel (str ''abc''))) (str ''ls''))
     = None \<and>
   result (run False exampleRuntime (sentinelWorld (plainSentinel (str ''9007199254740993''))) (str ''ls''))
     = Some (Inr (Num 9007199254740992))"
proof -
  have r0: "CR \<notin> set ([] @ str ''0'' @ [])" "ESC \<notin> set (str ''0'')"
      "str ''0'' = [] \<or> \<not> isWhiteSpace (last (str ''0''))" "LF \<notin> set (str ''0'')"
    by (simp_all add: str_def CR_def ESC_def LF_def isWhiteSpace_def)
  have r1: "CR \<notin> set ([] @ str ''137'' @ str '' '')" "ESC \<notin> set (str ''137'')"
      "str ''137'' = [] \<or> \<not> isWhiteSpace (last (str ''137''))" "LF \<notin> set (str ''137'')"
    by (simp_all add: str_def CR_def ESC_def LF_def isWhiteSpace_def)
  have r2: "CR \<notin> set ([] @ str ''abc'' @ [])" "ESC \<notin> set (str ''abc'')"
      "str ''abc'' = [] \<or> \<not> isWhiteSpace (last (str ''abc''))" "LF \<notin> set (str ''abc'')"
    by (simp_all add: str_def CR_def ESC_def LF_def isWhiteSpace_def)
  have r3: "CR \<notin> set ([] @ str ''9007199254740993'' @ [])" "ESC \<notin> set (str ''9007199254740993'')"
      "str ''9007199254740993'' = [] \<or> \<not> isWhiteSpace (last (str ''9007199254740993''))"
      "LF \<notin> set (str ''9007199254740993'')"
    by (simp_all add: str_def CR_def ESC_def LF_def isWhiteSpace_def)
  have p: "list_all isWhiteSpace []" "list_all isWhiteSpace (str '' '')"
    by (simp_all add: str_def isWhiteSpace_def)
  have u: "isUuid (uuid (sentinelWorld l))" for l
    by (simp add: sentinelWorld_simps isUuid_example)
  note t = sentinel_line_sets_exit_code
    [OF trim_ls sentinelWorld_simps(1) sentinelWorld_simps(2) sentinelWorld_simps(3) u,
      where verbose = False and runtime = exampleRuntime]
  from t [OF _ p(1) p(1) r0(1,2,3) plainSentinel_decorated sentinel_no_LF(1) [OF r0(4)] sentinelWorld_simps(5)]
       t [OF _ p(1) p(2) r1(1,2,3) decoratedSentinel_decorated sentinel_no_LF(2) [OF r1(4)] sentinelWorld_simps(5)]
       t [OF _ p(1) p(1) r2(1,2,3) plainSentinel_decorated sentinel_no_LF(1) [OF r2(4)] sentinelWorld_simps(5)]
       t [OF _ p(1) p(1) r3(1,2,3) plainSentinel_decorated sentinel_no_LF(1) [OF r3(4)] sentinelWorld_simps(5)]
       isUuid_example trim_ls
  show ?thesis
    by (simp add: parseInt_examples parseInt_rounds isNaN_def)
qed

text \<open>
  C3, as stated, fails, with verbose mode off, on lines that are not the sentinel. The empty
  line is not boilerplate and is not written. A line that only begins as the echo of the
  \<^verbatim>\<open>printf\<close> command does is not the echo of a command that was sent, and is not
  written. The echo of \<^verbatim>\<open>__COLAB_CLI_STATUS=$?\<close>, a command of the epilogue, is
  boilerplate and is written.
\<close>

theorem suppressed_lines_are_not_the_boilerplate:
  "(\<not> isSentinelLine exampleMarker [] \<and>
    \<not> isBoilerplate exampleMarker (detectionTarget []) \<and>
    stdoutWrites (flushLine False exampleMarker [] initialState) = []) \<and>
   (\<not> isSentinelLine exampleMarker printfEchoPrefix \<and>
    \<not> isBoilerplate exampleMarker (detectionTarget printfEchoPrefix) \<and>
    stdoutWrites (flushLine False exampleMarker printfEchoPrefix initialState) = []) \<and>
   (\<not> isSentinelLine exampleMarker (str ''__COLAB_CLI_STATUS=$?'') \<and>
    isBoilerplate exampleMarker (detectionTarget (str ''__COLAB_CLI_STATUS=$?'')) \<and>
    stdoutWrites (flushLine False exampleMarker (str ''__COLAB_CLI_STATUS=$?'') initialState) =
      [str ''__COLAB_CLI_STATUS=$?'' @ [LF]])"
proof -
  have t: "detectionTarget [] = []" "detectionTarget printfEchoPrefix = printfEchoPrefix"
      "detectionTarget (str ''__COLAB_CLI_STATUS=$?'') = str ''__COLAB_CLI_STATUS=$?''"
      "withoutPrompt (str ''__COLAB_CLI_STATUS=$?'') = str ''__COLAB_CLI_STATUS=$?''"
    by (simp_all add: detectionTarget_def withoutPrompt_def normalized_def trim_def str_def CR_def
        ESC_def PROMPT_PREFIX_def startsWith_def isWhiteSpace_def printfEchoPrefix_def)
  have s: "\<not> startsWith [] (exampleMarker @ str '':'')"
      "\<not> startsWith printfEchoPrefix (exampleMarker @ str '':'')"
      "\<not> startsWith (str ''__COLAB_CLI_STATUS=$?'') (exampleMarker @ str '':'')"
    by (simp_all add: startsWith_def str_def exampleMarker_def EXIT_SENTINEL_PREFIX_def
        printfEchoPrefix_def)
  have b: "\<not> isBoilerplate exampleMarker []" "\<not> isBoilerplate exampleMarker printfEchoPrefix"
      "isBoilerplate exampleMarker (str ''__COLAB_CLI_STATUS=$?'')"
    by (simp_all add: isBoilerplate_unfold printfCommand_def printfEchoPrefix_def str_def)
  have f: "stdoutWrites (flushLine False exampleMarker [] initialState) = []"
    by (simp add: flushLine_Nil initialState_def)
  have p: "shouldSuppressLine printfEchoPrefix exampleMarker"
    by (simp add: shouldSuppressLine_def startsWith_def printfEchoPrefix_def)
  have q: "\<not> shouldSuppressLine (str ''__COLAB_CLI_STATUS=$?'') exampleMarker"
    unfolding shouldSuppressLine_unfold [OF s(3)]
    by (simp add: startsWith_def str_def)
  have "stdoutWrites (flushLine False exampleMarker printfEchoPrefix initialState) = []"
    using s(2) p by (simp add: flushLine_def t initialState_def)
  moreover have "stdoutWrites (flushLine False exampleMarker (str ''__COLAB_CLI_STATUS=$?'') initialState) =
      [str ''__COLAB_CLI_STATUS=$?'' @ [LF]]"
    using s(3) q by (simp add: flushLine_def t initialState_def) (simp add: str_def)
  ultimately show ?thesis
    using s b f by (simp add: isSentinelLine_def t)
qed

text \<open>
  C3, amended. With verbose mode off, take a line that is not the sentinel and whose trimmed
  text is not \<^verbatim>\<open>__COLAB_CLI_STATUS=$?\<close>. It is suppressed if and only if its trimmed text
  is recognised boilerplate (the literal echo of one of the prologue and epilogue commands
  sent in the wrapped payload, or a bare \<^verbatim>\<open>exit\<close> or \<^verbatim>\<open>logout\<close>), or begins as the
  echo of the \<^verbatim>\<open>printf\<close> command does, or the line is empty after the removal of
  carriage returns, escape sequences and the prompt; every other such line is written,
  without the prompt, followed by a newline. The commands are those of the payload that
  \<open>streamCommand\<close> sends.
\<close>

theorem suppressed_iff_boilerplate_or_empty:
  assumes "\<not> isSentinelLine (EXIT_SENTINEL_PREFIX @ u) line"
    and "detectionTarget line \<noteq> str ''__COLAB_CLI_STATUS=$?''"
  shows "flushLine False (EXIT_SENTINEL_PREFIX @ u) line st =
           (if isBoilerplate (EXIT_SENTINEL_PREFIX @ u) (detectionTarget line)
               \<or> startsWith (detectionTarget line) printfEchoPrefix
               \<or> withoutPrompt line = []
            then st
            else st\<lparr>stdoutWrites := stdoutWrites st @ [withoutPrompt line @ [LF]]\<rparr>) \<and>
         wrappedPayload command (EXIT_SENTINEL_PREFIX @ u) =
           joinLF (prologueCommands @ [command] @ epilogueCommands (EXIT_SENTINEL_PREFIX @ u) @ [[]])"
proof
  from assms(1) have n: "\<not> startsWith (detectionTarget line) (EXIT_SENTINEL_PREFIX @ u @ str '':'')"
    by (simp add: isSentinelLine_def)
  then have f: "flushLine False (EXIT_SENTINEL_PREFIX @ u) line st =
      (if shouldSuppressLine (detectionTarget line) (EXIT_SENTINEL_PREFIX @ u) \<or> withoutPrompt line = []
       then st
       else st\<lparr>stdoutWrites := stdoutWrites st @ [withoutPrompt line @ [LF]]\<rparr>)"
    by (simp add: flushLine_def)
  show "flushLine False (EXIT_SENTINEL_PREFIX @ u) line st =
           (if isBoilerplate (EXIT_SENTINEL_PREFIX @ u) (detectionTarget line)
               \<or> startsWith (detectionTarget line) printfEchoPrefix
               \<or> withoutPrompt line = []
            then st
            else st\<lparr>stdoutWrites := stdoutWrites st @ [withoutPrompt line @ [LF]]\<rparr>)"
    unfolding f shouldSuppressLine_boilerplate [OF n assms(2)] by (simp only: disj_assoc)
  show "wrappedPayload command (EXIT_SENTINEL_PREFIX @ u) =
      joinLF (prologueCommands @ [command] @ epilogueCommands (EXIT_SENTINEL_PREFIX @ u) @ [[]])"
    by (rule wrappedPayload_commands)
qed

text \<open>
  A line of output behind the prompt is written; the echo of \<^verbatim>\<open>exit\<close> and the echo of
  the \<^verbatim>\<open>printf\<close> command of the run are suppressed.
\<close>

theorem suppressed_iff_boilerplate_or_empty_witness:
  "\<not> isSentinelLine exampleMarker (str ''/# hello'') \<and>
   detectionTarget (str ''/# hello'') \<noteq> str ''__COLAB_CLI_STATUS=$?'' \<and>
   flushLine False exampleMarker (str ''/# hello'') initialState =
     initialState\<lparr>stdoutWrites := [str ''hello'' @ [LF]]\<rparr> \<and>
   \<not> isSentinelLine exampleMarker (str ''exit'') \<and>
   flushLine False exampleMarker (str ''exit'') initialState = initialState \<and>
   \<not> isSentinelLine exampleMarker (printfCommand exampleMarker) \<and>
   flushLine False exampleMarker (printfCommand exampleMarker) initialState = initialState"
proof -
  have t: "detectionTarget (str ''/# hello'') = str ''hello''" "withoutPrompt (str ''/# hello'') = str ''hello''"
     "detectionTarget (str ''exit'') = str ''exit''"
    by (simp_all add: detectionTarget_def withoutPrompt_def normalized_def trim_def str_def CR_def ESC_def
        PROMPT_PREFIX_def startsWith_def isWhiteSpace_def)
  have "CR \<notin> set (printfCommand exampleMarker)" "ESC \<notin> set (printfCommand exampleMarker)"
    by (simp_all add: printfCommand_def exampleMarker_def EXIT_SENTINEL_PREFIX_def exampleUuid_def
        str_def CR_def ESC_def)
  then have "normalized (printfCommand exampleMarker) = printfCommand exampleMarker"
    using decorated_refl by (intro normalized_decorated)
  moreover have "\<not> startsWith (printfCommand exampleMarker) PROMPT_PREFIX"
    by (intro startsWith_hd) (simp_all add: printfCommand_def PROMPT_PREFIX_def str_def)
  ultimately have w: "withoutPrompt (printfCommand exampleMarker) = printfCommand exampleMarker"
    by (simp add: withoutPrompt_def)
  have "trim (printfCommand exampleMarker) = printfCommand exampleMarker"
    by (intro trim_id) (simp_all add: printfCommand_def str_def isWhiteSpace_def)
  with w have d: "detectionTarget (printfCommand exampleMarker) = printfCommand exampleMarker"
    by (simp add: detectionTarget_def)
  have s: "\<not> isSentinelLine exampleMarker (str ''/# hello'')" "\<not> isSentinelLine exampleMarker (str ''exit'')"
      "\<not> isSentinelLine exampleMarker (printfCommand exampleMarker)"
    unfolding isSentinelLine_def t d
    by (intro startsWith_hd; simp add: str_def exampleMarker_def EXIT_SENTINEL_PREFIX_def printfCommand_def)+
  have h: "detectionTarget (str ''/# hello'') \<noteq> str ''__COLAB_CLI_STATUS=$?''"
      "detectionTarget (str ''exit'') \<noteq> str ''__COLAB_CLI_STATUS=$?''"
      "detectionTarget (printfCommand exampleMarker) \<noteq> str ''__COLAB_CLI_STATUS=$?''"
    unfolding t d by (simp_all add: str_def printfCommand_def)
  have b: "\<not> isBoilerplate exampleMarker (str ''hello'')" "\<not> startsWith (str ''hello'') printfEchoPrefix"
      "isBoilerplate exampleMarker (str ''exit'')"
      "isBoilerplate exampleMarker (printfCommand exampleMarker)" "str ''hello'' \<noteq> []"
    by (simp_all add: isBoilerplate_unfold) (simp_all add: str_def printfCommand_def startsWith_def printfEchoPrefix_def)
  note e = s [unfolded exampleMarker_def] h [unfolded exampleMarker_def]
  from suppressed_iff_boilerplate_or_empty [OF e(1) e(4), of initialState]
       suppressed_iff_boilerplate_or_empty [OF e(2) e(5), of initialState]
       suppressed_iff_boilerplate_or_empty [OF e(3) e(6), of initialState] s h(1) b
  show ?thesis
    by (simp add: t d [unfolded exampleMarker_def] exampleMarker_def initialState_def)
qed

text \<open>
  C4. However a text is cut into chunks, the line processor completes the same lines as on
  the whole text in one chunk: the recorded sequence of lines is the same; with any
  consumer of lines the buffer left over and the consumer's state are the same; and the
  runner's message handler, fed the chunks as \<^verbatim>\<open>stdout\<close> frames, ends in the same state.
\<close>

theorem chunking_boundary_invariance:
  "completedLines chunks = completedLines [concat chunks] \<and>
   foldl (feedChunk flush) ([], s) chunks = foldl (feedChunk flush) ([], s) [concat chunks] \<and>
   foldl (\<lambda>st chunk. onMessage verbose exitMarker (stdoutFrame chunk) st)
     (st\<lparr>stdoutBuffer := []\<rparr>) chunks =
   foldl (\<lambda>st chunk. onMessage verbose exitMarker (stdoutFrame chunk) st)
     (st\<lparr>stdoutBuffer := []\<rparr>) [concat chunks]"
proof (intro conjI)
  show "completedLines chunks = completedLines [concat chunks]"
    by (simp add: completedLines_def feedChunk_concat)
  show "foldl (feedChunk flush) ([], s) chunks = foldl (feedChunk flush) ([], s) [concat chunks]"
    by (simp add: feedChunk_concat)
  show "foldl (\<lambda>st chunk. onMessage verbose exitMarker (stdoutFrame chunk) st)
          (st\<lparr>stdoutBuffer := []\<rparr>) chunks =
        foldl (\<lambda>st chunk. onMessage verbose exitMarker (stdoutFrame chunk) st)
          (st\<lparr>stdoutBuffer := []\<rparr>) [concat chunks]"
  proof (induction chunks rule: rev_induct)
    case Nil
    show ?case
      by (simp add: onMessage_stdout_empty)
  next
    case (snoc c cs)
    then show ?case
      by (simp add: onMessage_stdout_twice)
  qed
qed

text \<open>
  C5, as stated, fails. The text \<^verbatim>\<open>exit\<close> does not contain the marker; behind the prompt
  and with escape sequences around it, nothing is forwarded. The text \<^verbatim>\<open>hi\<close> behind the
  prompt and an escape sequence that sets the window title is forwarded with that sequence.
  In verbose mode the decorated line is forwarded as it came.
\<close>

theorem decorated_text_not_forwarded:
  "(\<not> containsText (str ''exit'') exampleMarker \<and>
    decorated (PROMPT_PREFIX @ str ''exit'') decoratedExit \<and>
    stdoutWrites (flushLine False exampleMarker decoratedExit initialState) = []) \<and>
   (\<not> containsText (str ''hi'') exampleMarker \<and>
    stdoutWrites (flushLine False exampleMarker titledExample initialState) =
      [titleSequence @ str ''hi'' @ [LF]]) \<and>
   (decorated (PROMPT_PREFIX @ str ''hi'') decoratedExample \<and>
    stdoutWrites (flushLine True exampleMarker decoratedExample initialState) =
      [decoratedExample @ [LF]])"
proof -
  have c: "\<not> containsText (str ''exit'') exampleMarker" "\<not> containsText (str ''hi'') exampleMarker"
    by (rule containsText_short;
        simp add: str_def exampleMarker_def EXIT_SENTINEL_PREFIX_def exampleUuid_def)+
  have cr: "CR \<notin> set (PROMPT_PREFIX @ str ''exit'')" "ESC \<notin> set (PROMPT_PREFIX @ str ''exit'')"
      "CR \<notin> set (PROMPT_PREFIX @ str ''hi'')" "ESC \<notin> set (PROMPT_PREFIX @ str ''hi'')"
    by (simp_all add: PROMPT_PREFIX_def str_def CR_def ESC_def)
  have n: "normalized decoratedExit = PROMPT_PREFIX @ str ''exit''"
    using decorated_exit cr(1,2) by (rule normalized_decorated)
  then have w: "withoutPrompt decoratedExit = str ''exit''"
    by (simp add: withoutPrompt_def startsWith_def)
  have tr: "trim (str ''exit'') = str ''exit''" "trim (str ''hi'') = str ''hi''"
    by (simp_all add: trim_def str_def isWhiteSpace_def)
  with w have d: "detectionTarget decoratedExit = str ''exit''"
    by (simp add: detectionTarget_def)
  have "\<not> startsWith (str ''exit'') (exampleMarker @ str '':'')"
    by (intro startsWith_hd) (simp_all add: exampleMarker_def EXIT_SENTINEL_PREFIX_def str_def)
  then have 1: "flushLine False exampleMarker decoratedExit initialState = initialState"
    by (simp add: flushLine_def d shouldSuppressLine_def)
  have nt: "normalized titledExample = PROMPT_PREFIX @ titleSequence @ str ''hi''"
    by (simp add: normalized_def titledExample_def titleSequence_def PROMPT_PREFIX_def str_def
        CR_def ESC_def)
  then have wt: "withoutPrompt titledExample = titleSequence @ str ''hi''"
    by (simp add: withoutPrompt_def startsWith_def)
  have "trim (titleSequence @ str ''hi'') = titleSequence @ str ''hi''"
    by (intro trim_id) (simp_all add: titleSequence_def str_def ESC_def isWhiteSpace_def)
  with wt have dt: "detectionTarget titledExample = titleSequence @ str ''hi''"
    by (simp add: detectionTarget_def)
  have st: "\<not> startsWith (titleSequence @ str ''hi'') (exampleMarker @ str '':'')"
    by (intro startsWith_hd)
       (simp_all add: exampleMarker_def EXIT_SENTINEL_PREFIX_def str_def titleSequence_def ESC_def)
  have "\<not> shouldSuppressLine (titleSequence @ str ''hi'') exampleMarker"
    unfolding shouldSuppressLine_unfold [OF st]
    by (simp add: titleSequence_def str_def ESC_def startsWith_def)
  with st have 2: "stdoutWrites (flushLine False exampleMarker titledExample initialState) =
      [titleSequence @ str ''hi'' @ [LF]]"
    by (simp add: flushLine_def dt wt initialState_def titleSequence_def)
  have "normalized decoratedExample = PROMPT_PREFIX @ str ''hi''"
    using decorated_example cr(3,4) by (rule normalized_decorated)
  then have "withoutPrompt decoratedExample = str ''hi''"
    by (simp add: withoutPrompt_def startsWith_def)
  with tr have dv: "detectionTarget decoratedExample = str ''hi''"
    by (simp add: detectionTarget_def)
  have "\<not> startsWith (str ''hi'') (exampleMarker @ str '':'')"
    by (intro startsWith_hd) (simp_all add: exampleMarker_def EXIT_SENTINEL_PREFIX_def str_def)
  moreover have "decoratedExample \<noteq> []"
    by (simp add: decoratedExample_def)
  ultimately have 3: "stdoutWrites (flushLine True exampleMarker decoratedExample initialState) =
      [decoratedExample @ [LF]]"
    by (simp add: flushLine_def dv initialState_def)
  from c decorated_exit decorated_example 1 2 3 show ?thesis
    by (simp add: initialState_def)
qed

text \<open>
  C5, amended. With verbose mode off, let \<open>s\<close> be a text that has no carriage return and no
  escape character and whose trimmed form the runner does not suppress: it neither starts
  with the marker and a colon nor is one of the boilerplate lines. A line made of the prompt
  prefix and \<open>s\<close>, with control sequences (the escape character, a bracket, digits,
  semicolons and question marks, intermediates, a final code unit) and carriage returns
  put in anywhere, is stripped of them and of the prompt, and exactly \<open>s\<close>, followed by a
  newline, is written; when \<open>s\<close> is empty, nothing is written.
\<close>

theorem decorated_line_forwarded:
  assumes "decorated (PROMPT_PREFIX @ s) line"
    and "CR \<notin> set s" and "ESC \<notin> set s"
    and "\<not> shouldSuppressLine (trim s) exitMarker"
  shows "withoutPrompt line = s \<and>
         flushLine False exitMarker line st =
           (if s = [] then st else st\<lparr>stdoutWrites := stdoutWrites st @ [s @ [LF]]\<rparr>)"
proof -
  have "CR \<notin> set (PROMPT_PREFIX @ s)" "ESC \<notin> set (PROMPT_PREFIX @ s)"
    using assms(2,3) by (simp_all add: PROMPT_PREFIX_def str_def CR_def ESC_def)
  with assms(1) have n: "normalized line = PROMPT_PREFIX @ s"
    by (intro normalized_decorated)
  then have w: "withoutPrompt line = s"
    by (simp add: withoutPrompt_def startsWith_def)
  then have d: "detectionTarget line = trim s"
    by (simp add: detectionTarget_def)
  from assms(4) have "\<not> startsWith (trim s) (exitMarker @ str '':'')"
    by (auto simp: shouldSuppressLine_def)
  with assms(4) w d show ?thesis
    by (simp add: flushLine_def)
qed

theorem decorated_line_forwarded_witness:
  "decorated (PROMPT_PREFIX @ str ''hi'') decoratedExample \<and>
   \<not> shouldSuppressLine (trim (str ''hi'')) exampleMarker \<and>
   stdoutWrites (flushLine False exampleMarker decoratedExample initialState) = [str ''hi'' @ [LF]]"
proof -
  have h: "CR \<notin> set (str ''hi'')" "ESC \<notin> set (str ''hi'')" "str ''hi'' \<noteq> []"
    by (simp_all add: str_def CR_def ESC_def)
  have b: "\<not> shouldSuppressLine (trim (str ''hi'')) exampleMarker"
    by (simp add: shouldSuppressLine_def trim_def str_def isWhiteSpace_def startsWith_def
        exampleMarker_def EXIT_SENTINEL_PREFIX_def)
  from decorated_line_forwarded [OF decorated_example h(1,2) b, of initialState] decorated_example b h(3)
  show ?thesis
    by (simp add: initialState_def)
qed

text \<open>
  C6. A command that is empty or consists of white space only makes \<open>run\<close> fail with the
  empty-command error, and nothing was sent to the network: no POST, no socket.
\<close>

theorem run_blank_command:
  "list_all isWhiteSpace command \<Longrightarrow>
     result (run verbose runtime w command) = Some (Inl EmptyCommand) \<and>
     network (run verbose runtime w command) = []"
  by (simp add: run_def trim_Nil_iff initialState_def)

theorem run_blank_command_witness:
  "list_all isWhiteSpace (str '' '') \<and>
   result (run False exampleRuntime exampleWorld (str '' '')) = Some (Inl EmptyCommand) \<and>
   network (run False exampleRuntime exampleWorld (str '' '')) = []"
proof -
  have h: "list_all isWhiteSpace (str '' '')"
    by (simp add: str_def isWhiteSpace_def)
  from run_blank_command [OF h] h show ?thesis
    by blast
qed

text \<open>
  C7. When the socket closes, the text left in the buffer is handed to \<open>flushLine\<close> once:
  the lines of the run are the completed lines followed by the partial line, if there is one;
  the writes and the exit code of the run are those of \<open>flushLine\<close> on these lines, and the
  buffer is empty afterwards; and the run ends in the state in which it ends when the newline
  of the last line arrives before the close.
\<close>

theorem close_flushes_partial_line:
  "observedLines msgs =
     completedLines (stdoutChunks msgs) @
       (if partialLine (stdoutChunks msgs) = [] then [] else [partialLine (stdoutChunks msgs)]) \<and>
   stdoutWrites (streamCommand verbose command exitMarker msgs Closed st) =
     stdoutWrites (replay verbose exitMarker (observedLines msgs) (streamStart st)) \<and>
   capturedExitCode (streamCommand verbose command exitMarker msgs Closed st) =
     capturedExitCode (replay verbose exitMarker (observedLines msgs) (streamStart st)) \<and>
   stdoutBuffer (streamCommand verbose command exitMarker msgs Closed st) = [] \<and>
   streamCommand verbose command exitMarker msgs Closed st =
     streamCommand verbose command exitMarker (msgs @ [stdoutFrame [LF]]) Closed st \<and>
   streamCommand verbose command exitMarker msgs ErroredThenClosed st =
     streamCommand verbose command exitMarker (msgs @ [stdoutFrame [LF]]) ErroredThenClosed st"
  using tracks_streamCommand_closed [of verbose exitMarker st command msgs]
  by (simp add: tracks_def streamCommand_newline_closed streamCommand_newline_errored_closed
      observedLines_split)

text \<open>
  C8. A frame whose tag is none of \<^verbatim>\<open>stdout\<close>, \<^verbatim>\<open>stderr\<close>, \<^verbatim>\<open>disconnect\<close> leaves the
  state as it is, and a run with such a frame among its messages ends as the run without it.
  A message that cannot be decoded adds the warning to the console and changes nothing else;
  the run goes on and ends, the console apart, as the run without that message. No message
  settles the promise.
\<close>

theorem unknown_and_malformed_frames_skipped:
  assumes "tag frame \<noteq> str ''stdout''" and "tag frame \<noteq> str ''stderr''"
    and "tag frame \<noteq> str ''disconnect''"
  shows "onMessage verbose exitMarker (Some frame) st = st \<and>
         streamCommand verbose command exitMarker (ms1 @ Some frame # ms2) fin st0 =
           streamCommand verbose command exitMarker (ms1 @ ms2) fin st0 \<and>
         onMessage verbose exitMarker None st = st\<lparr>consoleLog := consoleLog st @ [WarnParseFailed]\<rparr> \<and>
         sameButLog (streamCommand verbose command exitMarker (ms1 @ None # ms2) fin st0)
                    (streamCommand verbose command exitMarker (ms1 @ ms2) fin st0) \<and>
         result (onMessage verbose exitMarker data st) = result st"
proof -
  have u: "onMessage verbose exitMarker (Some frame) s = s" for s
    using assms by (simp add: onMessage_def)
  then have "streamCommand verbose command exitMarker (ms1 @ Some frame # ms2) fin st0 =
           streamCommand verbose command exitMarker (ms1 @ ms2) fin st0"
    by (simp add: streamCommand_def Let_def)
  with u show ?thesis
    by (simp add: sameButLog_streamCommand_malformed result_onMessage) (simp add: onMessage_def)
qed

theorem unknown_and_malformed_frames_skipped_witness:
  "tag (Frame (str ''set_size'') []) \<noteq> str ''stdout'' \<and>
   tag (Frame (str ''set_size'') []) \<noteq> str ''stderr'' \<and>
   tag (Frame (str ''set_size'') []) \<noteq> str ''disconnect'' \<and>
   onMessage False exampleMarker (Some (Frame (str ''set_size'') [])) initialState = initialState \<and>
   onMessage False exampleMarker None initialState = initialState\<lparr>consoleLog := [WarnParseFailed]\<rparr>"
proof -
  have h: "tag (Frame (str ''set_size'') []) \<noteq> str ''stdout''"
    "tag (Frame (str ''set_size'') []) \<noteq> str ''stderr''"
    "tag (Frame (str ''set_size'') []) \<noteq> str ''disconnect''"
    by (simp_all add: str_def)
  from unknown_and_malformed_frames_skipped [OF h, of False exampleMarker initialState] h
  show ?thesis
    by (simp add: initialState_def)
qed

text \<open>
  C9. When the POST that creates the terminal is answered with a status that is not a
  success, \<open>run\<close> fails with that error and the only network action was the POST: the
  socket is never connected.
\<close>

theorem create_terminal_failure_is_fatal:
  "trim command \<noteq> [] \<Longrightarrow> fetched w = Response False statusText name \<Longrightarrow>
     result (run verbose runtime w command) = Some (Inl (CreateTerminalFailed statusText)) \<and>
     network (run verbose runtime w command) = [HttpPostTerminals (proxyUrl runtime)] \<and>
     (\<forall>url n. SocketConnect url n \<notin> set (network (run verbose runtime w command)))"
  by (simp add: run_def createRemoteTerminal_def initialState_def)

theorem create_terminal_failure_is_fatal_witness:
  "trim (str ''ls'') \<noteq> [] \<and>
   fetched (exampleWorld\<lparr>fetched := Response False (str ''Forbidden'') None\<rparr>) =
     Response False (str ''Forbidden'') None \<and>
   result (run False exampleRuntime (exampleWorld\<lparr>fetched := Response False (str ''Forbidden'') None\<rparr>)
     (str ''ls'')) = Some (Inl (CreateTerminalFailed (str ''Forbidden''))) \<and>
   network (run False exampleRuntime (exampleWorld\<lparr>fetched := Response False (str ''Forbidden'') None\<rparr>)
     (str ''ls'')) = [HttpPostTerminals (proxyUrl exampleRuntime)]"
proof -
  have h1: "trim (str ''ls'') \<noteq> []"
    by (simp add: trim_def str_def isWhiteSpace_def)
  have h2: "fetched (exampleWorld\<lparr>fetched := Response False (str ''Forbidden'') None\<rparr>) =
     Response False (str ''Forbidden'') None"
    by simp
  from create_terminal_failure_is_fatal [OF h1 h2] h1 h2 show ?thesis
    by blast
qed

text \<open>
  C10, as stated, fails: in verbose mode the line that holds a carriage return only is empty
  after the removal of carriage returns, escape sequences and the prompt, and it is written.
\<close>

theorem verbose_writes_blank_line:
  "withoutPrompt [CR] = [] \<and>
   stdoutWrites (flushLine True exampleMarker [CR] initialState) = [[CR, LF]]"
  by (simp add: flushLine_def detectionTarget_def withoutPrompt_def normalized_def trim_def
      startsWith_def str_def PROMPT_PREFIX_def initialState_def exampleMarker_def
      EXIT_SENTINEL_PREFIX_def CR_def LF_def)

text \<open>
  C10, amended. With verbose mode off, a line that is empty after the removal of carriage
  returns, escape sequences and the prompt writes nothing. In verbose mode it is the line as
  it came that is tested and written: a line that is not the sentinel is written as it came,
  followed by a newline, unless it is empty as it came, and then nothing is written. The
  sentinel line writes nothing in either mode. In both modes every write of a run to
  standard output is a text that is not empty, followed by a newline.
\<close>

theorem blank_lines_dropped:
  "(withoutPrompt line = [] \<longrightarrow> flushLine False exitMarker line st = st) \<and>
   (line = [] \<longrightarrow> flushLine True exitMarker line st = st) \<and>
   (\<not> isSentinelLine exitMarker line \<longrightarrow>
      flushLine True exitMarker line st =
        (if line = [] then st else st\<lparr>stdoutWrites := stdoutWrites st @ [line @ [LF]]\<rparr>)) \<and>
   (isSentinelLine exitMarker line \<longrightarrow>
      stdoutWrites (flushLine verbose exitMarker line st) = stdoutWrites st) \<and>
   list_all isWrittenLine (stdoutWrites (run verbose runtime w command))"
proof (intro conjI impI)
  assume "withoutPrompt line = []"
  then show "flushLine False exitMarker line st = st"
    by (simp add: flushLine_def detectionTarget_def trim_def startsWith_def shouldSuppressLine_def str_def)
next
  assume "line = []"
  then show "flushLine True exitMarker line st = st"
    by (simp add: flushLine_Nil)
next
  assume "\<not> isSentinelLine exitMarker line"
  then show "flushLine True exitMarker line st =
      (if line = [] then st else st\<lparr>stdoutWrites := stdoutWrites st @ [line @ [LF]]\<rparr>)"
    by (simp add: flushLine_def isSentinelLine_def)
next
  assume "isSentinelLine exitMarker line"
  then show "stdoutWrites (flushLine verbose exitMarker line st) = stdoutWrites st"
    by (simp add: flushLine_def isSentinelLine_def Let_def)
next
  show "list_all isWrittenLine (stdoutWrites (run verbose runtime w command))"
    by (rule written_run)
qed

theorem blank_lines_dropped_witness:
  "withoutPrompt [CR] = [] \<and> flushLine False exampleMarker [CR] initialState = initialState \<and>
   flushLine True exampleMarker [] initialState = initialState \<and>
   \<not> isSentinelLine exampleMarker (str ''hi'') \<and>
   flushLine True exampleMarker (str ''hi'') initialState =
     initialState\<lparr>stdoutWrites := [str ''hi'' @ [LF]]\<rparr> \<and>
   isSentinelLine exampleMarker (plainSentinel (str ''0'')) \<and>
   stdoutWrites (flushLine True exampleMarker (plainSentinel (str ''0'')) initialState) = []"
proof -
  have h: "withoutPrompt [CR] = []"
    by (simp add: withoutPrompt_def normalized_def startsWith_def PROMPT_PREFIX_def str_def)
  have t: "detectionTarget (str ''hi'') = str ''hi''"
    by (simp add: detectionTarget_def withoutPrompt_def normalized_def trim_def str_def CR_def ESC_def
        PROMPT_PREFIX_def startsWith_def isWhiteSpace_def)
  have s: "\<not> isSentinelLine exampleMarker (str ''hi'')"
    unfolding isSentinelLine_def t
    by (intro startsWith_hd) (simp_all add: exampleMarker_def EXIT_SENTINEL_PREFIX_def str_def)
  have "detectionTarget (plainSentinel (str ''0'')) = EXIT_SENTINEL_PREFIX @ exampleUuid @ str '':'' @ str ''0''"
    using detectionTarget_sentinel [OF isUuid_example, of "[]" "[]" "[]" "str ''0''" "plainSentinel (str ''0'')"]
    by (simp add: decorated_refl plainSentinel_def exampleMarker_def)
       (simp add: str_def CR_def ESC_def isWhiteSpace_def)
  then have p: "isSentinelLine exampleMarker (plainSentinel (str ''0''))"
    by (simp add: isSentinelLine_def startsWith_def exampleMarker_def)
  have n: "str ''hi'' \<noteq> []"
    by (simp add: str_def)
  from blank_lines_dropped [of "[CR]" exampleMarker initialState]
       blank_lines_dropped [of "[]" exampleMarker initialState]
       blank_lines_dropped [of "str ''hi''" exampleMarker initialState]
       blank_lines_dropped [of "plainSentinel (str ''0'')" exampleMarker initialState True] h s p n
  show ?thesis
    by (simp add: initialState_def)
qed

end
